theory Spec2Isabelle
  imports Main "HOL-Library.Sublist"
begin

section \<open>Go strings and the library functions the parser calls\<close>

text \<open>
  A Go \<^verbatim>\<open>string\<close> is a sequence of bytes, modelled as a \<^typ>\<open>string\<close> (a list of
  8-bit characters). The functions of this section stand for the Go standard library
  (\<^verbatim>\<open>strings\<close>, \<^verbatim>\<open>strconv\<close>, \<^verbatim>\<open>strings.Builder\<close>); they are written for text
  in the ASCII range, where Go's Unicode-aware functions (\<^verbatim>\<open>ToUpper\<close>, \<^verbatim>\<open>TrimSpace\<close>,
  \<^verbatim>\<open>Fields\<close>, \<^verbatim>\<open>EqualFold\<close>) act byte by byte: a byte from 0x80 on is here neither a
  space nor a letter.
\<close>

abbreviation eof :: char where
  "eof \<equiv> CHR 0x00"

definition isSpace :: "char \<Rightarrow> bool" where
  "isSpace c = (c = CHR 0x09 \<or> c = CHR 0x0A \<or> c = CHR 0x0B \<or> c = CHR 0x0C
                \<or> c = CHR 0x0D \<or> c = CHR 0x20)"

definition toUpper :: "char \<Rightarrow> char" where
  "toUpper c = (case map_of (zip ''abcdefghijklmnopqrstuvwxyz'' ''ABCDEFGHIJKLMNOPQRSTUVWXYZ'') c of
                  None \<Rightarrow> c | Some u \<Rightarrow> u)"

definition ToUpper :: "string \<Rightarrow> string" where
  "ToUpper s = map toUpper s"

definition EqualFold :: "string \<Rightarrow> string \<Rightarrow> bool" where
  "EqualFold s t = (ToUpper s = ToUpper t)"

definition HasPrefix :: "string \<Rightarrow> string \<Rightarrow> bool" where
  "HasPrefix s p = (take (length p) s = p)"

text \<open>\<^verbatim>\<open>strings.Index\<close>: the position of the first occurrence, \<open>None\<close> for Go's \<open>-1\<close>.\<close>

fun Index :: "string \<Rightarrow> string \<Rightarrow> nat option" where
  "Index [] sub = (if sub = [] then Some 0 else None)"
| "Index (c # cs) sub =
     (if HasPrefix (c # cs) sub then Some 0 else map_option Suc (Index cs sub))"

definition Contains :: "string \<Rightarrow> string \<Rightarrow> bool" where
  "Contains s sub = (Index s sub \<noteq> None)"

definition TrimSpace :: "string \<Rightarrow> string" where
  "TrimSpace s = rev (dropWhile isSpace (rev (dropWhile isSpace s)))"

definition Trim :: "string \<Rightarrow> string \<Rightarrow> string" where
  "Trim s cutset =
     rev (dropWhile (\<lambda>c. c \<in> set cutset) (rev (dropWhile (\<lambda>c. c \<in> set cutset) s)))"

definition TrimRight :: "string \<Rightarrow> string \<Rightarrow> string" where
  "TrimRight s cutset = rev (dropWhile (\<lambda>c. c \<in> set cutset) (rev s))"

text \<open>\<^verbatim>\<open>strings.Fields\<close>: the maximal runs of non-space characters, in order.\<close>

fun Fields_from :: "string \<Rightarrow> string \<Rightarrow> string list" where
  "Fields_from cur [] = (if cur = [] then [] else [cur])"
| "Fields_from cur (c # cs) =
     (if isSpace c then (if cur = [] then Fields_from [] cs else cur # Fields_from [] cs)
      else Fields_from (cur @ [c]) cs)"

definition Fields :: "string \<Rightarrow> string list" where
  "Fields s = Fields_from [] s"

fun Join :: "string list \<Rightarrow> string \<Rightarrow> string" where
  "Join [] sep = []"
| "Join [x] sep = x"
| "Join (x # y # ys) sep = x @ sep @ Join (y # ys) sep"

text \<open>\<^verbatim>\<open>strings.SplitN(s, sep, 2)\<close>: cut at the first occurrence of \<open>sep\<close>, if there is one.\<close>

definition SplitN2 :: "string \<Rightarrow> string \<Rightarrow> string list" where
  "SplitN2 s sep =
     (case Index s sep of None \<Rightarrow> [s] | Some i \<Rightarrow> [take i s, drop (i + length sep) s])"

text \<open>\<^verbatim>\<open>strings.Split(s, sep)\<close> for a separator of one character, as the parser calls it.\<close>

fun Split_from :: "string \<Rightarrow> string \<Rightarrow> char \<Rightarrow> string list" where
  "Split_from cur [] sep = [cur]"
| "Split_from cur (c # cs) sep =
     (if c = sep then cur # Split_from [] cs sep else Split_from (cur @ [c]) cs sep)"

definition Split :: "string \<Rightarrow> char \<Rightarrow> string list" where
  "Split s sep = Split_from [] s sep"

text \<open>\<^verbatim>\<open>strings.Replace(s, old, new, 1)\<close>: the first occurrence of \<open>old\<close> replaced.\<close>

definition Replace1 :: "string \<Rightarrow> string \<Rightarrow> string \<Rightarrow> string" where
  "Replace1 s old new =
     (case Index s old of None \<Rightarrow> s | Some i \<Rightarrow> take i s @ new @ drop (i + length old) s)"

text \<open>
  \<^verbatim>\<open>strconv.Atoi\<close> on a 64-bit platform: an optional sign, then one or more decimal
  digits, and a value that fits a signed 64-bit integer; anything else is an error.
\<close>

definition digit :: "char \<Rightarrow> int option" where
  "digit c = map_of (zip ''0123456789'' [0, 1, 2, 3, 4, 5, 6, 7, 8, 9]) c"

fun digits_value :: "string \<Rightarrow> int \<Rightarrow> int option" where
  "digits_value [] n = Some n"
| "digits_value (c # cs) n =
     (case digit c of None \<Rightarrow> None | Some k \<Rightarrow> digits_value cs (n * 10 + k))"

definition Atoi :: "string \<Rightarrow> int option" where
  "Atoi s =
     (let neg = (take 1 s = ''-'');
          ds = (if take 1 s = ''-'' \<or> take 1 s = ''+'' then drop 1 s else s)
      in if ds = [] then None
         else (case digits_value ds 0 of
                 None \<Rightarrow> None
               | Some n \<Rightarrow>
                   (let v = (if neg then - n else n)
                    in if - (2 ^ 63) \<le> v \<and> v < 2 ^ 63 then Some v else None)))"

text \<open>
  \<^verbatim>\<open>strings.Builder.WriteRune(r)\<close> for \<open>r = rune(b)\<close>, \<open>b\<close> a byte: the UTF-8
  encoding of the code point \<open>b\<close>. Below 0x80 that is the byte itself; from 0x80 on it is
  the two bytes \<open>0xC0 | b >> 6\<close> and \<open>0x80 | b & 0x3F\<close> (characters are written
  \<open>Char\<close> with the least significant bit first).
\<close>

definition WriteRune :: "char \<Rightarrow> string" where
  "WriteRune r =
     (if digit7 r
      then [Char (digit6 r) True False False False False True True,
            Char (digit0 r) (digit1 r) (digit2 r) (digit3 r) (digit4 r) (digit5 r) False True]
      else [r])"

section \<open>Lexer\<close>

record Lexer =
  input :: string
  pos :: nat

datatype error =
  UnterminatedString
| UnterminatedTableDefinition
| InvalidDDL
| TablenameLookupFailed string string

definition newLexer :: "string \<Rightarrow> Lexer" where
  "newLexer inp = \<lparr>input = inp, pos = 0\<rparr>"

text \<open>
  \<^verbatim>\<open>next\<close> returns the byte at the cursor and moves the cursor, or returns 0 and leaves
  the cursor where it is once the input is exhausted. The rune is returned with the new
  state of the lexer.
\<close>

definition next_rune :: "Lexer \<Rightarrow> char \<times> Lexer" where
  "next_rune l =
     (if pos l \<ge> length (input l) then (eof, l)
      else (input l ! pos l, l\<lparr>pos := pos l + 1\<rparr>))"

definition peek :: "Lexer \<Rightarrow> char" where
  "peek l = (if pos l \<ge> length (input l) then eof else input l ! pos l)"

text \<open>The loop of \<^verbatim>\<open>parseString\<close>, after the opening quote has been read.\<close>

function parseString_loop :: "char \<Rightarrow> Lexer \<Rightarrow> string \<Rightarrow> error + (string \<times> Lexer)" where
  "parseString_loop quote l result =
     (case next_rune l of
        (r, l') \<Rightarrow>
          if r = eof then Inl UnterminatedString
          else if r = quote then Inr (result, l')
          else parseString_loop quote l' (result @ WriteRune r))"
  by pat_completeness auto
termination
  by (relation "measure (\<lambda>(quote, l, result). length (input l) - pos l)")
     (auto simp: next_rune_def split: if_splits)

declare parseString_loop.simps [simp del]

definition parseString :: "Lexer \<Rightarrow> error + (string \<times> Lexer)" where
  "parseString l = (case next_rune l of (quote, l') \<Rightarrow> parseString_loop quote l' [])"

section \<open>Statement parser\<close>

text \<open>
  A \<^verbatim>\<open>Parser\<close> holds a pointer to its lexer and nothing else, so a parser's state is
  its lexer's state.
\<close>

type_synonym Parser = Lexer

definition newParser :: "string \<Rightarrow> Parser" where
  "newParser inp = newLexer inp"

text \<open>
  The first loop of \<^verbatim>\<open>parseTableName\<close> has no exit but a quote character under the
  cursor, so it is a partial function: \<open>None\<close> is the loop that never ends.
\<close>

partial_function (option) parseTableName_skip :: "Parser \<Rightarrow> Parser option" where
  "parseTableName_skip p =
     (if peek p \<noteq> CHR ''`'' \<and> peek p \<noteq> CHR ''\"'' \<and> peek p \<noteq> CHR 0x27
      then parseTableName_skip (snd (next_rune p))
      else Some p)"

declare parseTableName_skip.simps [code]

definition parseTableName :: "Parser \<Rightarrow> (error + (string \<times> Parser)) option" where
  "parseTableName p =
     (case parseTableName_skip p of None \<Rightarrow> None | Some p' \<Rightarrow> Some (parseString p'))"

partial_function (option) parseTableFields_skip :: "Parser \<Rightarrow> Parser option" where
  "parseTableFields_skip p =
     (if peek p \<noteq> CHR ''('' then parseTableFields_skip (snd (next_rune p)) else Some p)"

declare parseTableFields_skip.simps [code]

text \<open>
  The main loop of \<^verbatim>\<open>parseTableFields\<close>, over its local variables; \<open>fs\<close> is the
  slice \<^verbatim>\<open>fields\<close> (a name the record package takes).
\<close>

function parseTableFields_loop ::
  "Parser \<Rightarrow> int \<Rightarrow> string \<Rightarrow> string list \<Rightarrow> error + string list" where
  "parseTableFields_loop p bracketLevel currentField fs =
     (if bracketLevel > 0 then
        (case next_rune p of
           (r, p') \<Rightarrow>
             if r = eof then Inl UnterminatedTableDefinition
             else if r = CHR ''('' then
               parseTableFields_loop p' (bracketLevel + 1) (currentField @ WriteRune r) fs
             else if r = CHR '')'' then
               (if bracketLevel - 1 = 0 then
                  Inr (if length currentField > 0 then fs @ [TrimSpace currentField]
                       else fs)
                else parseTableFields_loop p' (bracketLevel - 1) (currentField @ WriteRune r) fs)
             else if r = CHR '','' \<and> bracketLevel = 1 then
               parseTableFields_loop p' bracketLevel [] (fs @ [TrimSpace currentField])
             else parseTableFields_loop p' bracketLevel (currentField @ WriteRune r) fs)
      else Inr fs)"
  by pat_completeness auto
termination
  by (relation "measure (\<lambda>(p, bracketLevel, currentField, fs). length (input p) - pos p)")
     (auto simp: next_rune_def split: if_splits)

declare parseTableFields_loop.simps [simp del]

definition parseTableFields :: "Parser \<Rightarrow> (error + string list) option" where
  "parseTableFields p =
     (case parseTableFields_skip p of
        None \<Rightarrow> None
      | Some p' \<Rightarrow> Some (parseTableFields_loop (snd (next_rune p')) 1 [] []))"

section \<open>Column interpreter\<close>

text \<open>
  The fields of \<^verbatim>\<open>migrator.ColumnType\<close> that the parser sets. An \<^verbatim>\<open>sql.NullString\<close>,
  \<^verbatim>\<open>sql.NullBool\<close> or \<^verbatim>\<open>sql.NullInt64\<close> is an option: \<open>None\<close> when \<^verbatim>\<open>Valid\<close> is
  false, \<open>Some v\<close> when it is true.
\<close>

record ColumnType =
  NameValue :: "string option"
  DataTypeValue :: "string option"
  ColumnTypeValue :: "string option"
  PrimaryKeyValue :: "bool option"
  UniqueValue :: "bool option"
  LengthValue :: "int option"
  NullableValue :: "bool option"
  DefaultValueValue :: "string option"

text \<open>The cutset \<^verbatim>\<open>"`'\""\<close> of the calls to \<^verbatim>\<open>strings.Trim\<close>.\<close>

definition quote_cutset :: string where
  "quote_cutset = [CHR ''`'', CHR 0x27, CHR ''\"'']"

text \<open>Whether a field is skipped as a table-level clause by \<^verbatim>\<open>parseColumns\<close>.\<close>

definition is_clause :: "string \<Rightarrow> bool" where
  "is_clause field =
     (HasPrefix (ToUpper field) ''PRIMARY KEY'' \<or> HasPrefix (ToUpper field) ''CHECK''
      \<or> HasPrefix (ToUpper field) ''CONSTRAINT'')"

text \<open>The default-value block of \<^verbatim>\<open>parseColumns\<close>, on the column built so far.\<close>

definition parse_default :: "string \<Rightarrow> ColumnType \<Rightarrow> ColumnType" where
  "parse_default rest column =
     (if Contains (ToUpper rest) ''DEFAULT'' then
        (let defaultParts = SplitN2 rest ''DEFAULT'' in
         if length defaultParts > 1 then
           (let defaultValue = TrimSpace (defaultParts ! 1) in
            if \<not> EqualFold defaultValue ''NULL''
            then column\<lparr>DefaultValueValue := Some (Trim defaultValue ''()'')\<rparr>
            else column)
         else column)
      else column)"

text \<open>The data-type-length block; \<open>dataType\<close> is \<^verbatim>\<open>column.DataTypeValue.String\<close>.\<close>

definition parse_length :: "string \<Rightarrow> ColumnType \<Rightarrow> ColumnType" where
  "parse_length dataType column =
     (if Contains dataType ''('' then
        (let parts = Split dataType (CHR ''('') in
         if length parts > 1 then
           (let lengthStr = TrimRight (parts ! 1) '')'' in
            case Atoi lengthStr of
              Some len \<Rightarrow> column\<lparr>LengthValue := Some len, DataTypeValue := Some (parts ! 0)\<rparr>
            | None \<Rightarrow> column)
         else column)
      else column)"

text \<open>
  The body of the loop of \<^verbatim>\<open>parseColumns\<close> for one field: \<open>None\<close> when the field is
  skipped (\<^verbatim>\<open>continue\<close>), the column appended otherwise.
\<close>

definition parseColumn :: "string \<Rightarrow> ColumnType option" where
  "parseColumn field0 =
     (let field = TrimSpace field0 in
      if is_clause field then None
      else
        (let parts = Fields field in
         if length parts < 2 then None
         else
           (let column = \<lparr>NameValue = Some (Trim (parts ! 0) quote_cutset),
                          DataTypeValue = Some (parts ! 1),
                          ColumnTypeValue = Some (parts ! 1),
                          PrimaryKeyValue = Some False,
                          UniqueValue = Some False,
                          LengthValue = None,
                          NullableValue = Some True,
                          DefaultValueValue = None\<rparr>;
                rest = Join (drop 2 parts) '' '';
                column = (if Contains (ToUpper rest) ''NOT NULL''
                          then column\<lparr>NullableValue := Some False\<rparr> else column);
                column = (if Contains (ToUpper rest) ''UNIQUE''
                          then column\<lparr>UniqueValue := Some True\<rparr> else column);
                column = (if Contains (ToUpper rest) ''PRIMARY KEY''
                          then column\<lparr>PrimaryKeyValue := Some True\<rparr> else column);
                column = parse_default rest column;
                column = parse_length (parts ! 1) column
            in Some column)))"

fun parseColumns_loop :: "string list \<Rightarrow> ColumnType list \<Rightarrow> ColumnType list" where
  "parseColumns_loop [] columns = columns"
| "parseColumns_loop (field # rest) columns =
     (case parseColumn field of
        None \<Rightarrow> parseColumns_loop rest columns
      | Some column \<Rightarrow> parseColumns_loop rest (columns @ [column]))"

definition parseColumns :: "string list \<Rightarrow> error + ColumnType list" where
  "parseColumns fs = Inr (parseColumns_loop fs [])"

section \<open>DDL model\<close>

text \<open>The struct \<^verbatim>\<open>ddl\<close>; its slice \<^verbatim>\<open>fields\<close> is the field \<open>fields'\<close>.\<close>

record ddl =
  head :: string
  fields' :: "string list"
  columns :: "ColumnType list"

text \<open>
  \<^verbatim>\<open>parseDDL\<close>: the loop over the statements, on the \<^verbatim>\<open>result\<close> built so far.
  \<open>None\<close> is a call that does not return.
\<close>

fun parseDDL_loop :: "string list \<Rightarrow> ddl \<Rightarrow> (error + ddl) option" where
  "parseDDL_loop [] result = Some (Inr result)"
| "parseDDL_loop (str # strs) result =
     (if HasPrefix (ToUpper str) ''CREATE TABLE'' then
        (case parseTableName (newParser str) of
           None \<Rightarrow> None
         | Some (Inl err) \<Rightarrow> Some (Inl err)
         | Some (Inr (tableName, parser)) \<Rightarrow>
             (case parseTableFields parser of
                None \<Rightarrow> None
              | Some (Inl err) \<Rightarrow> Some (Inl err)
              | Some (Inr fs) \<Rightarrow>
                  (case parseColumns fs of
                     Inl err \<Rightarrow> Some (Inl err)
                   | Inr cols \<Rightarrow>
                       parseDDL_loop strs
                         (result\<lparr>head := ''CREATE TABLE `'' @ tableName @ ''`'',
                                 fields' := fs, columns := cols\<rparr>))))
      else if HasPrefix (ToUpper str) ''CREATE INDEX'' then parseDDL_loop strs result
      else Some (Inl InvalidDDL))"

definition parseDDL :: "string list \<Rightarrow> (error + ddl) option" where
  "parseDDL strs = parseDDL_loop strs \<lparr>head = [], fields' = [], columns = []\<rparr>"

definition clone :: "ddl \<Rightarrow> ddl" where
  "clone d = \<lparr>head = head d, fields' = fields' d, columns = columns d\<rparr>"

definition compile :: "ddl \<Rightarrow> string" where
  "compile d =
     (if length (fields' d) = 0 then head d
      else head d @ '' ('' @ Join (fields' d) '','' @ '')'')"

text \<open>\<^verbatim>\<open>renameTable\<close> returns its error (\<open>None\<close> for \<^verbatim>\<open>nil\<close>) and the model as it leaves it.\<close>

definition renameTable :: "string \<Rightarrow> string \<Rightarrow> ddl \<Rightarrow> error option \<times> ddl" where
  "renameTable dst src d =
     (let oldHead = head d;
          d' = d\<lparr>head := Replace1 (head d) (''`'' @ src @ ''`'') (''`'' @ dst @ ''`'')\<rparr>
      in if oldHead = head d' then (Some (TablenameLookupFailed src (head d')), d')
         else (None, d'))"

text \<open>Whether a field is a \<^verbatim>\<open>CONSTRAINT\<close> clause whose text contains \<open>name\<close>.\<close>

definition constraint_named :: "string \<Rightarrow> string \<Rightarrow> bool" where
  "constraint_named name field =
     (HasPrefix (ToUpper field) ''CONSTRAINT'' \<and> Contains field name)"

function addConstraint_loop :: "nat \<Rightarrow> string \<Rightarrow> string \<Rightarrow> string list \<Rightarrow> string list" where
  "addConstraint_loop i name sql fs =
     (if i < length fs then
        (if constraint_named name (fs ! i) then fs[i := sql]
         else addConstraint_loop (i + 1) name sql fs)
      else fs @ [sql])"
  by pat_completeness auto
termination
  by (relation "measure (\<lambda>(i, name, sql, fs). length fs - i)") auto

declare addConstraint_loop.simps [simp del]

definition addConstraint :: "string \<Rightarrow> string \<Rightarrow> ddl \<Rightarrow> ddl" where
  "addConstraint name sql d = d\<lparr>fields' := addConstraint_loop 0 name sql (fields' d)\<rparr>"

function removeConstraint_loop :: "nat \<Rightarrow> string \<Rightarrow> string list \<Rightarrow> bool \<times> string list" where
  "removeConstraint_loop i name fs =
     (if i < length fs then
        (if constraint_named name (fs ! i) then (True, take i fs @ drop (i + 1) fs)
         else removeConstraint_loop (i + 1) name fs)
      else (False, fs))"
  by pat_completeness auto
termination
  by (relation "measure (\<lambda>(i, name, fs). length fs - i)") auto

declare removeConstraint_loop.simps [simp del]

definition removeConstraint :: "string \<Rightarrow> ddl \<Rightarrow> bool \<times> ddl" where
  "removeConstraint name d =
     (case removeConstraint_loop 0 name (fields' d) of (b, fs) \<Rightarrow> (b, d\<lparr>fields' := fs\<rparr>))"

fun hasConstraint_loop :: "string list \<Rightarrow> string \<Rightarrow> bool" where
  "hasConstraint_loop [] name = False"
| "hasConstraint_loop (field # rest) name =
     (if constraint_named name field then True else hasConstraint_loop rest name)"

definition hasConstraint :: "string \<Rightarrow> ddl \<Rightarrow> bool" where
  "hasConstraint name d = hasConstraint_loop (fields' d) name"

text \<open>Whether \<^verbatim>\<open>getColumns\<close> skips a field (already trimmed).\<close>

definition not_a_column :: "string \<Rightarrow> bool" where
  "not_a_column field =
     (HasPrefix (ToUpper field) ''PRIMARY KEY'' \<or> HasPrefix (ToUpper field) ''CHECK''
      \<or> HasPrefix (ToUpper field) ''CONSTRAINT''
      \<or> Contains (ToUpper field) ''GENERATED ALWAYS AS'')"

fun getColumns_loop :: "string list \<Rightarrow> string list \<Rightarrow> string list" where
  "getColumns_loop [] res = res"
| "getColumns_loop (field0 # rest) res =
     (let field = TrimSpace field0 in
      if not_a_column field then getColumns_loop rest res
      else
        (let parts = Fields field in
         if length parts > 0
         then getColumns_loop rest (res @ [''`'' @ Trim (parts ! 0) quote_cutset @ ''`''])
         else getColumns_loop rest res))"

definition getColumns :: "ddl \<Rightarrow> string list" where
  "getColumns d = getColumns_loop (fields' d) []"

function removeColumn_loop :: "nat \<Rightarrow> string \<Rightarrow> string list \<Rightarrow> bool \<times> string list" where
  "removeColumn_loop i name fs =
     (if i < length fs then
        (let parts = Fields (fs ! i) in
         if length parts > 0 \<and> Trim (parts ! 0) quote_cutset = name
         then (True, take i fs @ drop (i + 1) fs)
         else removeColumn_loop (i + 1) name fs)
      else (False, fs))"
  by pat_completeness auto
termination
  by (relation "measure (\<lambda>(i, name, fs). length fs - i)") auto

declare removeColumn_loop.simps [simp del]

definition removeColumn :: "string \<Rightarrow> ddl \<Rightarrow> bool \<times> ddl" where
  "removeColumn name d =
     (case removeColumn_loop 0 name (fields' d) of (b, fs) \<Rightarrow> (b, d\<lparr>fields' := fs\<rparr>))"

section \<open>The input as the lexer sees it\<close>

text \<open>
  The statements below speak of the text the lexer has not read yet, of the nesting
  counter along a text, and of the UTF-8 bytes the string builder holds after the runes
  of a text were written to it.
\<close>

definition remaining :: "Lexer \<Rightarrow> string" where
  "remaining l = drop (pos l) (input l)"

definition advance :: "nat \<Rightarrow> Lexer \<Rightarrow> Lexer" where
  "advance n l = l\<lparr>pos := pos l + n\<rparr>"

definition utf8 :: "string \<Rightarrow> string" where
  "utf8 s = concat (map WriteRune s)"

definition nest :: "int \<Rightarrow> char \<Rightarrow> int" where
  "nest d c = (if c = CHR ''('' then d + 1 else if c = CHR '')'' then d - 1 else d)"

fun depths :: "int \<Rightarrow> string \<Rightarrow> int list" where
  "depths d [] = [d]"
| "depths d (c # cs) = d # depths (nest d c) cs"

fun stays_inner :: "int \<Rightarrow> string \<Rightarrow> bool" where
  "stays_inner d [] = True"
| "stays_inner d (c # cs) = (2 \<le> d \<and> c \<noteq> eof \<and> stays_inner (nest d c) cs)"

text \<open>
  The main loop of \<^verbatim>\<open>parseTableFields\<close> again, as a recursion over the text that is
  left (\<open>parseTableFields_loop_scan\<close> below proves that the two agree).
\<close>

fun scan_fields :: "string \<Rightarrow> int \<Rightarrow> string \<Rightarrow> string list \<Rightarrow> error + string list" where
  "scan_fields [] bracketLevel currentField fs =
     (if bracketLevel > 0 then Inl UnterminatedTableDefinition else Inr fs)"
| "scan_fields (r # cs) bracketLevel currentField fs =
     (if bracketLevel > 0 then
        (if r = eof then Inl UnterminatedTableDefinition
         else if r = CHR ''('' then scan_fields cs (bracketLevel + 1) (currentField @ WriteRune r) fs
         else if r = CHR '')'' then
           (if bracketLevel - 1 = 0 then
              Inr (if length currentField > 0 then fs @ [TrimSpace currentField] else fs)
            else scan_fields cs (bracketLevel - 1) (currentField @ WriteRune r) fs)
         else if r = CHR '','' \<and> bracketLevel = 1 then
           scan_fields cs bracketLevel [] (fs @ [TrimSpace currentField])
         else scan_fields cs bracketLevel (currentField @ WriteRune r) fs)
      else Inr fs)"

definition isQuote :: "char \<Rightarrow> bool" where
  "isQuote c = (c = CHR ''`'' \<or> c = CHR ''\"'' \<or> c = CHR 0x27)"

text \<open>The text after the first opening parenthesis, if there is one.\<close>

definition table_body :: "string \<Rightarrow> string option" where
  "table_body s = (case dropWhile (\<lambda>c. c \<noteq> CHR ''('') s of [] \<Rightarrow> None | c # post \<Rightarrow> Some post)"

text \<open>
  \<open>first_occurrence sub s pre post\<close>: the text \<open>s\<close> is \<open>pre\<close>, then \<open>sub\<close>, then
  \<open>post\<close>, and \<open>sub\<close> does not start at an earlier place of \<open>s\<close>.
\<close>

definition first_occurrence :: "string \<Rightarrow> string \<Rightarrow> string \<Rightarrow> string \<Rightarrow> bool" where
  "first_occurrence sub s pre post =
     (s = pre @ sub @ post \<and> list_all (\<lambda>k. \<not> HasPrefix (drop k s) sub) [0..<length pre])"

text \<open>A name between backticks, as \<^verbatim>\<open>fmt.Sprintf("`%s`", name)\<close> writes it.\<close>

definition backquoted :: "string \<Rightarrow> string" where
  "backquoted name = ''`'' @ name @ ''`''"

text \<open>
  The name token of a field: its first whitespace-delimited token, stripped of the
  quote characters around it; \<open>None\<close> for a field without a token.
\<close>

definition column_token :: "string \<Rightarrow> string option" where
  "column_token field =
     (case Fields field of [] \<Rightarrow> None | tok # _ \<Rightarrow> Some (Trim tok quote_cutset))"

text \<open>
  The spec's words for the recorded default value, "one layer of surrounding
  parentheses stripped": an opening parenthesis in front and a closing one at the end
  are removed, once.
\<close>

definition spec_strip_one_layer :: "string \<Rightarrow> string" where
  "spec_strip_one_layer s =
     (if 2 \<le> length s \<and> hd s = CHR ''('' \<and> last s = CHR '')'' then butlast (tl s) else s)"

text \<open>
  An entry of a table body as the round trip needs it, read with the nesting counter at
  \<open>d\<close>: ASCII characters other than NUL, no comma and no closing parenthesis while the
  counter is 1, and the counter back at 1 at the end.
\<close>

fun top_level_entry :: "int \<Rightarrow> string \<Rightarrow> bool" where
  "top_level_entry d [] = (d = 1)"
| "top_level_entry d (c # cs) =
     (c \<noteq> eof \<and> \<not> digit7 c \<and> \<not> (c = CHR '','' \<and> d = 1) \<and> \<not> (c = CHR '')'' \<and> d = 1)
      \<and> top_level_entry (nest d c) cs)"

definition ascii :: "string \<Rightarrow> bool" where
  "ascii s = list_all (\<lambda>c. \<not> digit7 c) s"

section \<open>The skip loops\<close>

text \<open>
  Both skip loops leave only through a character under the cursor. At the end of the
  input \<^verbatim>\<open>peek\<close> is 0 and \<^verbatim>\<open>next\<close> does not move, so a loop that returns has
  found its character in what was left of the input.
\<close>

lemma drop_next_rune_subset:
  "set (drop (pos (snd (next_rune p))) (input (snd (next_rune p)))) \<subseteq> set (drop (pos p) (input p))"
  by (auto simp: next_rune_def dest: in_set_dropD simp flip: drop_Suc intro: set_drop_subset_set_drop[THEN subsetD, rotated])

lemma peek_in_drop:
  "peek p \<noteq> eof \<Longrightarrow> peek p \<in> set (drop (pos p) (input p))"
  by (auto simp: peek_def in_set_conv_nth split: if_splits intro!: exI[of _ 0])

lemma parseTableName_skip_Some_quote:
  assumes "parseTableName_skip p = Some p'"
  shows "CHR ''`'' \<in> set (drop (pos p) (input p)) \<or> CHR ''\"'' \<in> set (drop (pos p) (input p))
     \<or> CHR 0x27 \<in> set (drop (pos p) (input p))"
proof (rule parseTableName_skip.raw_induct[where P = "\<lambda>q q'. CHR ''`'' \<in> set (drop (pos q) (input q))
     \<or> CHR ''\"'' \<in> set (drop (pos q) (input q)) \<or> CHR 0x27 \<in> set (drop (pos q) (input q))", OF _ assms])
  fix skip :: "Parser \<Rightarrow> Parser option" and q q'
  let ?Q = "\<lambda>q. CHR ''`'' \<in> set (drop (pos q) (input q)) \<or> CHR ''\"'' \<in> set (drop (pos q) (input q))
     \<or> CHR 0x27 \<in> set (drop (pos q) (input q))"
  assume IH: "\<And>x y. skip x = Some y \<Longrightarrow> ?Q x"
    and eq: "(if peek q \<noteq> CHR ''`'' \<and> peek q \<noteq> CHR ''\"'' \<and> peek q \<noteq> CHR 0x27
              then skip (snd (next_rune q)) else Some q) = Some q'"
  show "?Q q"
  proof (cases "peek q \<noteq> CHR ''`'' \<and> peek q \<noteq> CHR ''\"'' \<and> peek q \<noteq> CHR 0x27")
    case True
    with eq have "skip (snd (next_rune q)) = Some q'" by simp
    from IH[OF this] drop_next_rune_subset[of q] show ?thesis by blast
  next
    case False
    then have "peek q \<noteq> eof" by auto
    from peek_in_drop[OF this] False show ?thesis by auto
  qed
qed

lemma parseTableFields_skip_Some_paren:
  assumes "parseTableFields_skip p = Some p'"
  shows "CHR ''('' \<in> set (drop (pos p) (input p))"
proof (rule parseTableFields_skip.raw_induct[where P = "\<lambda>q q'. CHR ''('' \<in> set (drop (pos q) (input q))",
      OF _ assms])
  fix skip :: "Parser \<Rightarrow> Parser option" and q q'
  assume IH: "\<And>x y. skip x = Some y \<Longrightarrow> CHR ''('' \<in> set (drop (pos x) (input x))"
    and eq: "(if peek q \<noteq> CHR ''('' then skip (snd (next_rune q)) else Some q) = Some q'"
  show "CHR ''('' \<in> set (drop (pos q) (input q))"
  proof (cases "peek q \<noteq> CHR ''(''")
    case True
    with eq have "skip (snd (next_rune q)) = Some q'" by simp
    from IH[OF this] drop_next_rune_subset[of q] show ?thesis by blast
  next
    case False
    then have "peek q \<noteq> eof" by auto
    from peek_in_drop[OF this] False show ?thesis by auto
  qed
qed

lemma parseTableName_no_quote:
  "CHR ''`'' \<notin> set s \<Longrightarrow> CHR ''\"'' \<notin> set s \<Longrightarrow> CHR 0x27 \<notin> set s \<Longrightarrow> parseTableName (newParser s) = None"
  using parseTableName_skip_Some_quote[of "newParser s"]
  by (cases "parseTableName_skip (newParser s)") (auto simp: parseTableName_def newParser_def newLexer_def)

lemma parseTableFields_no_paren:
  "CHR ''('' \<notin> set (drop (pos p) (input p)) \<Longrightarrow> parseTableFields p = None"
  using parseTableFields_skip_Some_paren[of p]
  by (cases "parseTableFields_skip p") (auto simp: parseTableFields_def)

section \<open>The loops as functions of the remaining input\<close>

lemma next_rune_Nil: "remaining l = [] \<Longrightarrow> next_rune l = (eof, l)"
  by (simp add: remaining_def next_rune_def)

lemma next_rune_Cons:
  "remaining l = c # cs \<Longrightarrow> next_rune l = (c, advance (Suc 0) l) \<and> remaining (advance (Suc 0) l) = cs"
  unfolding remaining_def next_rune_def advance_def
  by (cases "pos l < length (input l)")
     (auto simp: Cons_nth_drop_Suc[symmetric])

lemma peek_Nil: "remaining l = [] \<Longrightarrow> peek l = eof"
  by (simp add: remaining_def peek_def)

lemma peek_Cons: "remaining l = c # cs \<Longrightarrow> peek l = c"
  unfolding remaining_def peek_def
  by (cases "pos l < length (input l)") (auto simp: Cons_nth_drop_Suc[symmetric])

lemma advance_advance: "advance m (advance n l) = advance (n + m) l"
  by (simp add: advance_def add.assoc)

lemma advance_0: "advance 0 l = l"
  by (simp add: advance_def)

lemma remaining_advance: "remaining l = w @ r \<Longrightarrow> remaining (advance (length w) l) = r"
proof -
  assume "remaining l = w @ r"
  then have "drop (length w) (drop (pos l) (input l)) = r" by (simp add: remaining_def)
  then show ?thesis by (simp add: remaining_def advance_def add.commute)
qed

lemma parseTableFields_loop_scan:
  "parseTableFields_loop p lvl cur fs = scan_fields (remaining p) lvl cur fs"
proof (induction "remaining p" arbitrary: p lvl cur fs)
  case Nil
  from next_rune_Nil[OF Nil[symmetric]] show ?case
    by (subst parseTableFields_loop.simps) (simp add: Nil[symmetric] del: parseTableFields_loop.simps)
next
  case (Cons c cs)
  from next_rune_Cons[OF Cons(2)[symmetric]]
  have n: "next_rune p = (c, advance (Suc 0) p)" and r: "cs = remaining (advance (Suc 0) p)" by simp_all
  show ?case
    by (subst parseTableFields_loop.simps)
       (simp add: Cons(2)[symmetric] n Cons(1)[OF r] r[symmetric] del: parseTableFields_loop.simps)
qed


lemma parseTableFields_skip_found:
  "remaining p = pre @ CHR ''('' # post \<Longrightarrow> CHR ''('' \<notin> set pre \<Longrightarrow>
     parseTableFields_skip p = Some (advance (length pre) p)"
proof (induction pre arbitrary: p)
  case Nil
  then show ?case
    by (subst parseTableFields_skip.simps) (simp add: peek_Cons advance_0)
next
  case (Cons c pre)
  from Cons(2) have pk: "peek p = c" by (simp add: peek_Cons)
  from Cons(2) next_rune_Cons[of p c "pre @ CHR ''('' # post"]
  have n: "next_rune p = (c, advance (Suc 0) p)"
    and r: "remaining (advance (Suc 0) p) = pre @ CHR ''('' # post" by simp_all
  from Cons(3) have "parseTableFields_skip (advance (Suc 0) p) = Some (advance (length pre) (advance (Suc 0) p))"
    by (intro Cons(1)[OF r]) simp
  with Cons(3) pk n show ?case
    by (subst parseTableFields_skip.simps) (auto simp: advance_advance)
qed

lemma parseTableName_skip_found:
  "remaining p = pre @ q # post \<Longrightarrow> isQuote q \<Longrightarrow> \<forall>c\<in>set pre. \<not> isQuote c \<Longrightarrow>
     parseTableName_skip p = Some (advance (length pre) p)"
proof (induction pre arbitrary: p)
  case Nil
  then show ?case
    by (subst parseTableName_skip.simps) (auto simp: peek_Cons advance_0 isQuote_def)
next
  case (Cons c pre)
  from Cons(2) have pk: "peek p = c" by (simp add: peek_Cons)
  from Cons(2) next_rune_Cons[of p c "pre @ q # post"]
  have n: "next_rune p = (c, advance (Suc 0) p)"
    and r: "remaining (advance (Suc 0) p) = pre @ q # post" by simp_all
  from Cons(3,4) have "parseTableName_skip (advance (Suc 0) p) = Some (advance (length pre) (advance (Suc 0) p))"
    by (intro Cons(1)[OF r]) simp_all
  moreover from Cons(4) have "\<not> isQuote c" by simp
  ultimately show ?case using pk n
    by (subst parseTableName_skip.simps) (simp add: advance_advance isQuote_def)
qed

lemma parseString_loop_found:
  "remaining l = name @ q # post \<Longrightarrow> q \<notin> set name \<Longrightarrow> eof \<notin> set name \<Longrightarrow> q \<noteq> eof \<Longrightarrow>
     parseString_loop q l acc = Inr (acc @ utf8 name, advance (Suc (length name)) l)"
proof (induction name arbitrary: l acc)
  case Nil
  from Nil(1) next_rune_Cons[of l q post] have "next_rune l = (q, advance (Suc 0) l)" by simp
  with Nil show ?case
    by (subst parseString_loop.simps) (simp add: utf8_def del: parseString_loop.simps)
next
  case (Cons c name)
  from Cons(2) next_rune_Cons[of l c "name @ q # post"]
  have n: "next_rune l = (c, advance (Suc 0) l)"
    and r: "remaining (advance (Suc 0) l) = name @ q # post" by simp_all
  from Cons(3-5) have "parseString_loop q (advance (Suc 0) l) (acc @ WriteRune c) =
      Inr ((acc @ WriteRune c) @ utf8 name, advance (Suc (length name)) (advance (Suc 0) l))"
    by (intro Cons(1)[OF r]) simp_all
  with Cons(3-5) n show ?case
    by (subst parseString_loop.simps) (auto simp: utf8_def advance_advance simp del: parseString_loop.simps)
qed

lemma parseString_found:
  "remaining l = q # name @ q # post \<Longrightarrow> q \<notin> set name \<Longrightarrow> eof \<notin> set name \<Longrightarrow> q \<noteq> eof \<Longrightarrow>
     parseString l = Inr (utf8 name, advance (Suc (Suc (length name))) l)"
  using next_rune_Cons[of l q "name @ q # post"]
    parseString_loop_found[of "advance (Suc 0) l" name q post "[]"]
  by (simp add: parseString_def advance_advance)

lemma scan_fields_inner:
  "stays_inner lvl w \<Longrightarrow>
     scan_fields (w @ r) lvl cur fs = scan_fields r (foldl nest lvl w) (cur @ utf8 w) fs"
proof (induction w arbitrary: lvl cur)
  case Nil
  then show ?case by (simp add: utf8_def)
next
  case (Cons c w)
  then show ?case by (auto simp: utf8_def nest_def)
qed

lemma depths_hd: "list_all P (depths d cs) \<Longrightarrow> P d"
  by (cases cs) simp_all

lemma scan_fields_error_iff:
  "0 < lvl \<Longrightarrow>
     (scan_fields cs lvl cur fs = Inl UnterminatedTableDefinition)
       = list_all (\<lambda>d. 0 < d) (depths lvl (takeWhile (\<lambda>c. c \<noteq> eof) cs))"
proof (induction cs arbitrary: lvl cur fs)
  case Nil
  then show ?case by simp
next
  case (Cons c cs)
  show ?case
  proof (cases "c = CHR '')'' \<and> lvl - 1 = 0")
    case True
    then show ?thesis using Cons(2) depths_hd[of "\<lambda>d. 0 < d" 0 "takeWhile (\<lambda>c. c \<noteq> eof) cs"]
      by (auto simp: nest_def)
  next
    case False
    then show ?thesis using Cons(2) Cons(1)[of "nest lvl c"] Cons(1)[of lvl]
      by (auto simp: nest_def)
  qed
qed

lemma parseTableFields_eq:
  "remaining p = pre @ CHR ''('' # post \<Longrightarrow> CHR ''('' \<notin> set pre \<Longrightarrow>
     parseTableFields p = Some (scan_fields post 1 [] [])"
  using parseTableFields_skip_found[of p pre post]
    remaining_advance[of p pre "CHR ''('' # post"]
    next_rune_Cons[of "advance (length pre) p" "CHR ''(''" post]
  by (simp add: parseTableFields_def parseTableFields_loop_scan advance_advance)

lemma parseTableFields_scan:
  "parseTableFields p =
     (case table_body (remaining p) of None \<Rightarrow> None | Some body \<Rightarrow> Some (scan_fields body 1 [] []))"
proof (cases "CHR ''('' \<in> set (remaining p)")
  case True
  then have ne: "dropWhile (\<lambda>c. c \<noteq> CHR ''('') (remaining p) \<noteq> []"
    by (auto simp: dropWhile_eq_Nil_conv)
  then obtain c post where d0: "dropWhile (\<lambda>c. c \<noteq> CHR ''('') (remaining p) = c # post"
    by (cases "dropWhile (\<lambda>c. c \<noteq> CHR ''('') (remaining p)") auto
  with hd_dropWhile[OF ne] have d: "dropWhile (\<lambda>c. c \<noteq> CHR ''('') (remaining p) = CHR ''('' # post"
    by simp
  have "remaining p = takeWhile (\<lambda>c. c \<noteq> CHR ''('') (remaining p) @ CHR ''('' # post"
    using takeWhile_dropWhile_id[of "\<lambda>c. c \<noteq> CHR ''(''" "remaining p"] d by simp
  moreover have "CHR ''('' \<notin> set (takeWhile (\<lambda>c. c \<noteq> CHR ''('') (remaining p))"
    by (auto dest: set_takeWhileD)
  ultimately have "parseTableFields p = Some (scan_fields post 1 [] [])"
    by (rule parseTableFields_eq)
  with d show ?thesis by (simp add: table_body_def)
next
  case False
  then have "dropWhile (\<lambda>c. c \<noteq> CHR ''('') (remaining p) = []" by (auto simp: dropWhile_eq_Nil_conv)
  with False show ?thesis
    by (simp add: parseTableFields_no_paren table_body_def remaining_def del: dropWhile_eq_Nil_conv)
qed

section \<open>Termination of the skip loops (C3)\<close>

text \<open>
  Claim C3 says that \<^verbatim>\<open>parseTableName\<close> terminates on every input, an input without
  a quote character included, and that the skip to the opening parenthesis in
  \<^verbatim>\<open>parseTableFields\<close> terminates on an input without one. The code has no such guard:
  on the statement \<^verbatim>\<open>CREATE TABLE users (id INTEGER)\<close>, which has no quote character,
  \<^verbatim>\<open>parseTableName\<close> never returns, and so neither does \<^verbatim>\<open>parseDDL\<close>; on the text
  \<^verbatim>\<open>CREATE TABLE users\<close>, which has no parenthesis, \<^verbatim>\<open>parseTableFields\<close> never returns.
\<close>

theorem skip_loops_never_return:
  "parseTableName (newParser ''CREATE TABLE users (id INTEGER)'') = None
   \<and> parseDDL [''CREATE TABLE users (id INTEGER)''] = None
   \<and> parseTableFields (newParser ''CREATE TABLE users'') = None"
proof -
  have a: "parseTableName (newParser ''CREATE TABLE users (id INTEGER)'') = None"
    by (rule parseTableName_no_quote) simp_all
  have "HasPrefix (ToUpper ''CREATE TABLE users (id INTEGER)'') ''CREATE TABLE''"
    by (simp add: HasPrefix_def ToUpper_def toUpper_def)
  with a have b: "parseDDL [''CREATE TABLE users (id INTEGER)''] = None"
    by (simp add: parseDDL_def)
  have c: "parseTableFields (newParser ''CREATE TABLE users'') = None"
    by (rule parseTableFields_no_paren) (simp add: newParser_def newLexer_def)
  from a b c show ?thesis by simp
qed

section \<open>Commas inside nested parentheses (C2)\<close>

text \<open>
  Claim C2: in \<^verbatim>\<open>parseTableFields\<close> a comma separates two fields only when the nesting
  counter is exactly 1. A text \<open>w\<close> read while the counter is 2 or more (\<open>stays_inner\<close>)
  is appended to the current field as it is, commas included, and the list of fields is
  left alone; a comma read while the counter is 1 closes the current field. The statement
  \<^verbatim>\<open>CREATE TABLE `t` (`a` DECIMAL(10,2), `b` TEXT CHECK (`b` <> ''))\<close> parses into
  exactly two fields.
\<close>

theorem nested_commas_do_not_split:
  "(stays_inner lvl w \<and> remaining p = w @ r \<longrightarrow>
      parseTableFields_loop p lvl cur fs =
        parseTableFields_loop (advance (length w) p) (foldl nest lvl w) (cur @ utf8 w) fs)
   \<and> (remaining p = CHR '','' # r \<longrightarrow>
      parseTableFields_loop p 1 cur fs =
        parseTableFields_loop (advance 1 p) 1 [] (fs @ [TrimSpace cur]))
   \<and> parseTableFields (newParser (''CREATE TABLE `t` (`a` DECIMAL(10,2), `b` TEXT CHECK (`b` <> ''
          @ [CHR 0x27, CHR 0x27] @ ''))''))
       = Some (Inr [''`a` DECIMAL(10,2)'', ''`b` TEXT CHECK (`b` <> '' @ [CHR 0x27, CHR 0x27] @ '')''])"
proof (intro conjI impI)
  assume a: "stays_inner lvl w \<and> remaining p = w @ r"
  then have "remaining (advance (length w) p) = r" by (simp add: remaining_advance)
  with a show "parseTableFields_loop p lvl cur fs =
        parseTableFields_loop (advance (length w) p) (foldl nest lvl w) (cur @ utf8 w) fs"
    by (simp add: parseTableFields_loop_scan scan_fields_inner)
next
  assume a: "remaining p = CHR '','' # r"
  with next_rune_Cons[of p "CHR '',''" r] have "remaining (advance 1 p) = r" by simp
  with a show "parseTableFields_loop p 1 cur fs =
        parseTableFields_loop (advance 1 p) 1 [] (fs @ [TrimSpace cur])"
    by (simp add: parseTableFields_loop_scan)
next
  show "parseTableFields (newParser (''CREATE TABLE `t` (`a` DECIMAL(10,2), `b` TEXT CHECK (`b` <> ''
          @ [CHR 0x27, CHR 0x27] @ ''))''))
       = Some (Inr [''`a` DECIMAL(10,2)'', ''`b` TEXT CHECK (`b` <> '' @ [CHR 0x27, CHR 0x27] @ '')''])"
    by code_simp
qed

theorem nested_commas_do_not_split_witness:
  "stays_inner 2 ''10,2)'' \<and> remaining (newLexer ''10,2), b)'') = ''10,2)'' @ '', b)''
   \<and> parseTableFields_loop (newLexer ''10,2), b)'') 2 ''a DECIMAL('' [] =
       parseTableFields_loop (advance (length ''10,2)'') (newLexer ''10,2), b)'')) 1 ''a DECIMAL(10,2)'' []
   \<and> remaining (newLexer '', b)'') = CHR '','' # '' b)''
   \<and> parseTableFields_loop (newLexer '', b)'') 1 ''a '' [] =
       parseTableFields_loop (advance 1 (newLexer '', b)'')) 1 [] [''a'']"
  using nested_commas_do_not_split[where lvl = 2 and w = "''10,2)''" and p = "newLexer ''10,2), b)''"
      and r = "'', b)''" and cur = "''a DECIMAL(''" and fs = "[]"]
    nested_commas_do_not_split[where lvl = 2 and w = "[]" and p = "newLexer '', b)''"
      and r = "'' b)''" and cur = "''a ''" and fs = "[]"]
  by (simp add: remaining_def newLexer_def utf8_def WriteRune_def nest_def TrimSpace_def isSpace_def
      advance_def)

section \<open>The unterminated table definition (C4)\<close>

text \<open>
  Claim C4 says that \<^verbatim>\<open>parseTableFields\<close> fails with the error for an unterminated
  table definition exactly when the end of the input is reached while the nesting
  counter is positive. The loop takes the rune 0 for the end of the input, and \<^verbatim>\<open>next\<close>
  also returns 0 for a NUL byte of the input: on the body \<^verbatim>\<open>`a` TEXT\0, `b` INT)\<close> the
  error is returned at the NUL byte, although the closing parenthesis follows and the
  counter would return to zero there.
\<close>

theorem unterminated_error_before_end_of_input:
  "parseTableFields (newParser (''CREATE TABLE `t` (`a` TEXT'' @ [eof] @ '', `b` INT)''))
     = Some (Inl UnterminatedTableDefinition)
   \<and> table_body (''CREATE TABLE `t` (`a` TEXT'' @ [eof] @ '', `b` INT)'')
     = Some (''`a` TEXT'' @ [eof] @ '', `b` INT)'')
   \<and> \<not> list_all (\<lambda>d. 0 < d) (depths 1 (''`a` TEXT'' @ [eof] @ '', `b` INT)''))"
  by (simp add: parseTableFields_scan table_body_def remaining_def newParser_def newLexer_def nest_def
      WriteRune_def TrimSpace_def isSpace_def)

text \<open>
  C4 as amended: \<^verbatim>\<open>parseTableFields\<close> fails with the error for an unterminated table
  definition exactly when, after the opening parenthesis, the nesting counter is positive
  all the way to the first rune 0 the lexer returns, which is the end of the input or a
  NUL byte of it.
\<close>

theorem unterminated_iff_sentinel_in_body:
  "(parseTableFields p = Some (Inl UnterminatedTableDefinition)) =
     (case table_body (remaining p) of
        None \<Rightarrow> False
      | Some body \<Rightarrow> list_all (\<lambda>d. 0 < d) (depths 1 (takeWhile (\<lambda>c. c \<noteq> eof) body)))"
  using scan_fields_error_iff[of 1 _ "[]" "[]"]
  by (simp add: parseTableFields_scan split: option.split)

theorem unterminated_iff_sentinel_in_body_witness:
  "table_body (remaining (newParser ''CREATE TABLE `t` (`a` DECIMAL(10,2)'')) = Some ''`a` DECIMAL(10,2)''
   \<and> list_all (\<lambda>d. 0 < d) (depths 1 (takeWhile (\<lambda>c. c \<noteq> eof) ''`a` DECIMAL(10,2)''))
   \<and> parseTableFields (newParser ''CREATE TABLE `t` (`a` DECIMAL(10,2)'')
       = Some (Inl UnterminatedTableDefinition)
   \<and> table_body (remaining (newParser ''CREATE TABLE `t` (`a` INT)'')) = Some ''`a` INT)''
   \<and> \<not> list_all (\<lambda>d. 0 < d) (depths 1 (takeWhile (\<lambda>c. c \<noteq> eof) ''`a` INT)''))
   \<and> parseTableFields (newParser ''CREATE TABLE `t` (`a` INT)'')
       \<noteq> Some (Inl UnterminatedTableDefinition)"
proof -
  have b1: "table_body (remaining (newParser ''CREATE TABLE `t` (`a` DECIMAL(10,2)'')) = Some ''`a` DECIMAL(10,2)''"
    and b2: "table_body (remaining (newParser ''CREATE TABLE `t` (`a` INT)'')) = Some ''`a` INT)''"
    by (simp_all add: table_body_def remaining_def newParser_def newLexer_def)
  have l1: "list_all (\<lambda>d. 0 < d) (depths 1 (takeWhile (\<lambda>c. c \<noteq> eof) ''`a` DECIMAL(10,2)''))"
    and l2: "\<not> list_all (\<lambda>d. 0 < d) (depths 1 (takeWhile (\<lambda>c. c \<noteq> eof) ''`a` INT)''))"
    by (simp_all add: nest_def)
  from b1 l1 unterminated_iff_sentinel_in_body[of "newParser ''CREATE TABLE `t` (`a` DECIMAL(10,2)''"]
  have e1: "parseTableFields (newParser ''CREATE TABLE `t` (`a` DECIMAL(10,2)'')
       = Some (Inl UnterminatedTableDefinition)"
    by simp
  from b2 l2 unterminated_iff_sentinel_in_body[of "newParser ''CREATE TABLE `t` (`a` INT)''"]
  have e2: "parseTableFields (newParser ''CREATE TABLE `t` (`a` INT)'')
       \<noteq> Some (Inl UnterminatedTableDefinition)"
    by simp
  from b1 l1 e1 b2 l2 e2 show ?thesis by blast
qed

section \<open>Occurrences of a text in a text\<close>

text \<open>
  The model of \<^verbatim>\<open>strings.Index\<close> finds the first occurrence, and with it
  \<^verbatim>\<open>strings.HasPrefix\<close> and \<^verbatim>\<open>strings.Contains\<close> are the library's \<open>prefix\<close> and
  \<open>sublist\<close>.
\<close>

lemma HasPrefix_prefix: "HasPrefix s p = prefix p s"
  by (auto simp: HasPrefix_def prefix_def) (metis append_take_drop_id)

lemma Index_Some_occurs:
  "Index s sub = Some i \<Longrightarrow> i \<le> length s \<and> (\<exists>post. s = take i s @ sub @ post)"
proof (induction s arbitrary: i)
  case Nil
  then show ?case by (simp split: if_splits)
next
  case (Cons c cs)
  show ?case
  proof (cases "HasPrefix (c # cs) sub")
    case True
    with Cons(2) have "i = 0" by simp
    with True show ?thesis by (auto simp: HasPrefix_prefix prefix_def)
  next
    case False
    with Cons(2) obtain j where j: "Index cs sub = Some j" "i = Suc j" by auto
    from Cons(1)[OF j(1)] j(2) show ?thesis by auto
  qed
qed

lemma Index_HasPrefix: "HasPrefix s sub \<Longrightarrow> Index s sub = Some 0"
  by (cases s) (auto simp: HasPrefix_def)

lemma Index_occurs_le:
  "\<exists>i \<le> length pre. Index (pre @ sub @ post) sub = Some i"
proof (induction pre)
  case Nil
  show ?case by (simp add: Index_HasPrefix HasPrefix_def)
next
  case (Cons c pre)
  then show ?case by auto
qed

lemma Index_None_iff: "(Index s sub = None) = (\<nexists>pre post. s = pre @ sub @ post)"
proof
  assume n: "Index s sub = None"
  show "\<nexists>pre post. s = pre @ sub @ post"
  proof
    assume "\<exists>pre post. s = pre @ sub @ post"
    then obtain pre post where "s = pre @ sub @ post" by blast
    with Index_occurs_le[of pre sub post] n show False by auto
  qed
next
  assume a: "\<nexists>pre post. s = pre @ sub @ post"
  show "Index s sub = None"
  proof (cases "Index s sub")
    case (Some i)
    from Index_Some_occurs[OF Some] a show ?thesis by blast
  qed simp
qed

lemma Contains_sublist: "Contains s sub = sublist sub s"
  by (auto simp: Contains_def Index_None_iff sublist_def)

lemma Index_not_before:
  "Index s sub = Some i \<Longrightarrow> k < i \<Longrightarrow> \<not> HasPrefix (drop k s) sub"
proof (induction s arbitrary: i k)
  case Nil
  then show ?case by (simp split: if_splits)
next
  case (Cons c cs)
  from Cons(2,3) have n: "\<not> HasPrefix (c # cs) sub" by (auto split: if_splits)
  with Cons(2) obtain j where j: "Index cs sub = Some j" "i = Suc j" by auto
  show ?case
  proof (cases k)
    case 0
    with n show ?thesis by simp
  next
    case (Suc k')
    with Cons(3) j(2) have "k' < j" by simp
    from Cons(1)[OF j(1) this] Suc show ?thesis by simp
  qed
qed

lemma Index_first_occurrence:
  assumes "first_occurrence sub s pre post"
  shows "Index s sub = Some (length pre)"
proof -
  from assms have s: "s = pre @ sub @ post"
    and least: "\<And>k. k < length pre \<Longrightarrow> \<not> HasPrefix (drop k s) sub"
    by (auto simp: first_occurrence_def list_all_iff)
  from Index_occurs_le[of pre sub post] s obtain i where i: "i \<le> length pre" "Index s sub = Some i"
    by auto
  from Index_Some_occurs[OF i(2)] obtain post' where "i \<le> length s" "s = take i s @ sub @ post'"
    by blast
  then have "drop i s = sub @ post'" by (metis append_eq_conv_conj length_take min.absorb2)
  then have "HasPrefix (drop i s) sub" by (simp add: HasPrefix_def)
  with least[of i] have "\<not> i < length pre" by blast
  with i show ?thesis by simp
qed

lemma first_occurrence_Index:
  assumes "Index s sub = Some i"
  shows "first_occurrence sub s (take i s) (drop (i + length sub) s)"
proof -
  from Index_Some_occurs[OF assms] obtain post where le: "i \<le> length s" and s: "s = take i s @ sub @ post"
    by blast
  from s have "drop i s = sub @ post" by (metis append_eq_conv_conj le length_take min.absorb2)
  then have "drop (length sub) (drop i s) = post" by simp
  then have p: "drop (i + length sub) s = post" by (simp add: add.commute)
  from le Index_not_before[OF assms]
  have "list_all (\<lambda>k. \<not> HasPrefix (drop k s) sub) [0..<length (take i s)]"
    by (simp add: list_all_iff)
  with s p show ?thesis unfolding first_occurrence_def by simp
qed

lemma Replace1_first_occurrence:
  "first_occurrence old s pre post \<Longrightarrow> Replace1 s old new = pre @ new @ post"
  using Index_first_occurrence[of old s pre post]
  by (auto simp: Replace1_def first_occurrence_def)

lemma Replace1_absent: "(\<nexists>pre post. s = pre @ old @ post) \<Longrightarrow> Replace1 s old new = s"
  using Index_None_iff[of s old] by (simp add: Replace1_def)

section \<open>Renaming the table (C7)\<close>

lemma renameTable_success:
  assumes "first_occurrence (backquoted src) (head d) pre post" and "dst \<noteq> src"
  shows "renameTable dst src d = (None, d\<lparr>head := pre @ backquoted dst @ post\<rparr>)"
proof -
  from assms have r: "Replace1 (head d) (backquoted src) (backquoted dst) = pre @ backquoted dst @ post"
    by (simp add: Replace1_first_occurrence)
  from assms have "head d = pre @ backquoted src @ post" by (simp add: first_occurrence_def)
  with assms have "head d \<noteq> pre @ backquoted dst @ post" by (auto simp: backquoted_def)
  with r show ?thesis by (simp add: renameTable_def Let_def backquoted_def)
qed

lemma renameTable_failure:
  assumes "(\<nexists>pre post. head d = pre @ backquoted src @ post) \<or> dst = src"
  shows "renameTable dst src d = (Some (TablenameLookupFailed src (head d)), d)"
proof -
  from assms have "Replace1 (head d) (backquoted src) (backquoted dst) = head d"
  proof
    assume "\<nexists>pre post. head d = pre @ backquoted src @ post"
    then show ?thesis by (rule Replace1_absent)
  next
    assume e: "dst = src"
    show ?thesis
    proof (cases "Index (head d) (backquoted src)")
      case None
      then show ?thesis by (simp add: Replace1_def)
    next
      case (Some i)
      from first_occurrence_Index[OF Some] show ?thesis
        by (simp add: Replace1_def Some e first_occurrence_def)
    qed
  qed
  then show ?thesis by (simp add: renameTable_def Let_def backquoted_def)
qed

text \<open>
  Claim C7 says that \<^verbatim>\<open>renameTable\<close> succeeds whenever the old name stands between
  backticks in the header. The function tells a failure from a success by comparing the
  header before and after the replacement, so renaming a table to its own name fails
  although the old name is there: \<^verbatim>\<open>renameTable("users", "users")\<close> on the header
  \<^verbatim>\<open>CREATE TABLE `users`\<close>.
\<close>

theorem renameTable_target_present_counterexample:
  "renameTable ''users'' ''users'' \<lparr>head = ''CREATE TABLE `users`'', fields' = [], columns = []\<rparr>
     = (Some (TablenameLookupFailed ''users'' ''CREATE TABLE `users`''),
        \<lparr>head = ''CREATE TABLE `users`'', fields' = [], columns = []\<rparr>)
   \<and> ''CREATE TABLE `users`'' = ''CREATE TABLE '' @ backquoted ''users'' @ []"
  by (simp add: renameTable_def Replace1_def HasPrefix_def backquoted_def)

text \<open>
  C7 as amended: \<^verbatim>\<open>renameTable(dst, src)\<close> replaces the first occurrence of the old
  name between backticks by the new name between backticks and succeeds whenever the old
  name occurs so in the header and the new name differs from the old one; it fails, with
  the header and the rest of the model unchanged, exactly when the old name between
  backticks does not occur in the header or the two names are equal.
\<close>

theorem renameTable_first_occurrence:
  "(first_occurrence (backquoted src) (head d) pre post \<and> dst \<noteq> src \<longrightarrow>
      renameTable dst src d = (None, d\<lparr>head := pre @ backquoted dst @ post\<rparr>))
   \<and> ((\<nexists>pre post. head d = pre @ backquoted src @ post) \<or> dst = src \<longrightarrow>
      renameTable dst src d = (Some (TablenameLookupFailed src (head d)), d))
   \<and> (fst (renameTable dst src d) \<noteq> None)
       = ((\<nexists>pre post. head d = pre @ backquoted src @ post) \<or> dst = src)"
proof (intro conjI impI)
  assume "first_occurrence (backquoted src) (head d) pre post \<and> dst \<noteq> src"
  then show "renameTable dst src d = (None, d\<lparr>head := pre @ backquoted dst @ post\<rparr>)"
    by (simp add: renameTable_success)
next
  assume "(\<nexists>pre post. head d = pre @ backquoted src @ post) \<or> dst = src"
  then show "renameTable dst src d = (Some (TablenameLookupFailed src (head d)), d)"
    by (rule renameTable_failure)
next
  show "(fst (renameTable dst src d) \<noteq> None)
       = ((\<nexists>pre post. head d = pre @ backquoted src @ post) \<or> dst = src)"
  proof (cases "(\<nexists>pre post. head d = pre @ backquoted src @ post) \<or> dst = src")
    case True
    then show ?thesis by (simp add: renameTable_failure)
  next
    case False
    then have "Index (head d) (backquoted src) \<noteq> None" by (simp add: Index_None_iff)
    then obtain i where "Index (head d) (backquoted src) = Some i" by auto
    from first_occurrence_Index[OF this] False show ?thesis
      by (simp add: renameTable_success)
  qed
qed

theorem renameTable_first_occurrence_witness:
  "first_occurrence (backquoted ''users'') ''CREATE TABLE `users`'' ''CREATE TABLE '' []
   \<and> renameTable ''accounts'' ''users'' \<lparr>head = ''CREATE TABLE `users`'', fields' = [], columns = []\<rparr>
       = (None, \<lparr>head = ''CREATE TABLE `accounts`'', fields' = [], columns = []\<rparr>)
   \<and> (\<nexists>pre post. ''CREATE TABLE `users`'' = pre @ backquoted ''does_not_exist'' @ post)
   \<and> renameTable ''x'' ''does_not_exist'' \<lparr>head = ''CREATE TABLE `users`'', fields' = [], columns = []\<rparr>
       = (Some (TablenameLookupFailed ''does_not_exist'' ''CREATE TABLE `users`''),
          \<lparr>head = ''CREATE TABLE `users`'', fields' = [], columns = []\<rparr>)"
proof -
  have "Index ''CREATE TABLE `users`'' (backquoted ''users'') = Some 13"
    by (simp add: HasPrefix_def backquoted_def)
  from first_occurrence_Index[OF this]
  have f: "first_occurrence (backquoted ''users'') ''CREATE TABLE `users`'' ''CREATE TABLE '' []"
    by (simp add: backquoted_def)
  have "Index ''CREATE TABLE `users`'' (backquoted ''does_not_exist'') = None"
    by (simp add: HasPrefix_def backquoted_def)
  with Index_None_iff[of "''CREATE TABLE `users`''" "backquoted ''does_not_exist''"]
  have n: "\<nexists>pre post. ''CREATE TABLE `users`'' = pre @ backquoted ''does_not_exist'' @ post"
    by blast
  from f
    renameTable_first_occurrence[of "''users''" "\<lparr>head = ''CREATE TABLE `users`'', fields' = [], columns = []\<rparr>"
      "''CREATE TABLE ''" "[]" "''accounts''"]
  have r1: "renameTable ''accounts'' ''users'' \<lparr>head = ''CREATE TABLE `users`'', fields' = [], columns = []\<rparr>
       = (None, \<lparr>head = ''CREATE TABLE `accounts`'', fields' = [], columns = []\<rparr>)"
    by (simp add: backquoted_def)
  from n
    renameTable_first_occurrence[of "''does_not_exist''" "\<lparr>head = ''CREATE TABLE `users`'', fields' = [], columns = []\<rparr>"
      "[]" "[]" "''x''"]
  have r2: "renameTable ''x'' ''does_not_exist'' \<lparr>head = ''CREATE TABLE `users`'', fields' = [], columns = []\<rparr>
       = (Some (TablenameLookupFailed ''does_not_exist'' ''CREATE TABLE `users`''),
          \<lparr>head = ''CREATE TABLE `users`'', fields' = [], columns = []\<rparr>)"
    by simp
  from f n r1 r2 show ?thesis by blast
qed

section \<open>Adding a constraint (C8)\<close>

lemma addConstraint_loop_found:
  "fs = pre @ f # post \<Longrightarrow> constraint_named name f \<Longrightarrow> \<forall>g\<in>set pre. \<not> constraint_named name g \<Longrightarrow>
     i \<le> length pre \<Longrightarrow> addConstraint_loop i name sql fs = pre @ sql # post"
proof (induction "length pre - i" arbitrary: i)
  case 0
  then have "i = length pre" by simp
  with 0 show ?case by (subst addConstraint_loop.simps) simp
next
  case (Suc n)
  then have i: "i < length pre" by simp
  with Suc(3) have "fs ! i = pre ! i" by (simp add: nth_append)
  with i Suc(5) have "\<not> constraint_named name (fs ! i)" by simp
  moreover from Suc have "addConstraint_loop (i + 1) name sql fs = pre @ sql # post"
    by (intro Suc(1)) simp_all
  ultimately show ?case using i Suc(3) by (subst addConstraint_loop.simps) simp
qed

lemma addConstraint_loop_absent:
  "\<forall>g\<in>set fs. \<not> constraint_named name g \<Longrightarrow> addConstraint_loop i name sql fs = fs @ [sql]"
proof (induction i name sql fs rule: addConstraint_loop.induct)
  case (1 i name sql fs)
  then show ?case by (subst addConstraint_loop.simps) simp
qed

text \<open>
  Claim C8: \<^verbatim>\<open>addConstraint(name, sql)\<close> replaces the first field that starts with
  \<^verbatim>\<open>CONSTRAINT\<close> in any letter case and contains \<open>name\<close> by \<open>sql\<close>, and adds no
  field; when there is no such field it appends \<open>sql\<close> at the end. The other fields,
  their order, the header and the columns stay as they are.
\<close>

theorem addConstraint_upsert:
  "(fields' d = pre @ f # post \<and> constraint_named name f \<and> (\<forall>g\<in>set pre. \<not> constraint_named name g) \<longrightarrow>
      addConstraint name sql d = d\<lparr>fields' := pre @ sql # post\<rparr>)
   \<and> ((\<forall>g\<in>set (fields' d). \<not> constraint_named name g) \<longrightarrow>
      addConstraint name sql d = d\<lparr>fields' := fields' d @ [sql]\<rparr>)"
  by (simp add: addConstraint_def addConstraint_loop_found[where i = 0] addConstraint_loop_absent)

theorem addConstraint_upsert_witness:
  "constraint_named ''uq_name'' ''CONSTRAINT `uq_name` UNIQUE(`name`)''
   \<and> \<not> constraint_named ''uq_name'' ''`name` TEXT''
   \<and> addConstraint ''uq_name'' ''CONSTRAINT `uq_name` UNIQUE(`name`, `id`)''
        \<lparr>head = ''CREATE TABLE `users`'',
         fields' = [''`name` TEXT'', ''CONSTRAINT `uq_name` UNIQUE(`name`)'', ''`id` INT''], columns = []\<rparr>
       = \<lparr>head = ''CREATE TABLE `users`'',
          fields' = [''`name` TEXT'', ''CONSTRAINT `uq_name` UNIQUE(`name`, `id`)'', ''`id` INT''], columns = []\<rparr>
   \<and> \<not> constraint_named ''uq_other'' ''CONSTRAINT `uq_name` UNIQUE(`name`)''
   \<and> \<not> constraint_named ''uq_other'' ''`name` TEXT''
   \<and> addConstraint ''uq_other'' ''CONSTRAINT `uq_other` UNIQUE(`id`)''
        \<lparr>head = ''CREATE TABLE `users`'',
         fields' = [''`name` TEXT'', ''CONSTRAINT `uq_name` UNIQUE(`name`)''], columns = []\<rparr>
       = \<lparr>head = ''CREATE TABLE `users`'',
          fields' = [''`name` TEXT'', ''CONSTRAINT `uq_name` UNIQUE(`name`)'',
                     ''CONSTRAINT `uq_other` UNIQUE(`id`)''], columns = []\<rparr>"
  using addConstraint_upsert[of
      "\<lparr>head = ''CREATE TABLE `users`'',
         fields' = [''`name` TEXT'', ''CONSTRAINT `uq_name` UNIQUE(`name`)'', ''`id` INT''], columns = []\<rparr>"
      "[''`name` TEXT'']" "''CONSTRAINT `uq_name` UNIQUE(`name`)''" "[''`id` INT'']" "''uq_name''"
      "''CONSTRAINT `uq_name` UNIQUE(`name`, `id`)''"]
    addConstraint_upsert[of
      "\<lparr>head = ''CREATE TABLE `users`'',
         fields' = [''`name` TEXT'', ''CONSTRAINT `uq_name` UNIQUE(`name`)''], columns = []\<rparr>"
      "[]" "[]" "[]" "''uq_other''" "''CONSTRAINT `uq_other` UNIQUE(`id`)''"]
  by (simp add: constraint_named_def HasPrefix_def ToUpper_def toUpper_def Contains_def)

section \<open>Removing a column (C9)\<close>

lemma column_token_cond:
  "(Fields f \<noteq> [] \<and> Trim (Fields f ! 0) quote_cutset = name) = (column_token f = Some name)"
  by (cases "Fields f") (auto simp: column_token_def)

lemma removeColumn_loop_found:
  "fs = pre @ f # post \<Longrightarrow> column_token f = Some name \<Longrightarrow> \<forall>g\<in>set pre. column_token g \<noteq> Some name \<Longrightarrow>
     i \<le> length pre \<Longrightarrow> removeColumn_loop i name fs = (True, pre @ post)"
proof (induction "length pre - i" arbitrary: i)
  case 0
  then have "i = length pre" by simp
  with 0 show ?case by (subst removeColumn_loop.simps) (simp add: column_token_cond Let_def)
next
  case (Suc n)
  then have i: "i < length pre" by simp
  with Suc(3) have "fs ! i = pre ! i" by (simp add: nth_append)
  with i Suc(5) have "column_token (fs ! i) \<noteq> Some name" by simp
  moreover from Suc have "removeColumn_loop (i + 1) name fs = (True, pre @ post)"
    by (intro Suc(1)) simp_all
  ultimately show ?case using i Suc(3)
    by (subst removeColumn_loop.simps) (simp add: column_token_cond Let_def)
qed

lemma removeColumn_loop_absent:
  "\<forall>g\<in>set fs. column_token g \<noteq> Some name \<Longrightarrow> removeColumn_loop i name fs = (False, fs)"
proof (induction i name fs rule: removeColumn_loop.induct)
  case (1 i name fs)
  then show ?case by (subst removeColumn_loop.simps) (simp add: column_token_cond Let_def)
qed

text \<open>
  Claim C9: \<^verbatim>\<open>removeColumn(name)\<close> removes the first field whose name token is
  \<open>name\<close> and returns true; when no field has that name token it returns false and the
  model is unchanged.
\<close>

theorem removeColumn_first_match:
  "(fields' d = pre @ f # post \<and> column_token f = Some name \<and> (\<forall>g\<in>set pre. column_token g \<noteq> Some name) \<longrightarrow>
      removeColumn name d = (True, d\<lparr>fields' := pre @ post\<rparr>))
   \<and> ((\<forall>g\<in>set (fields' d). column_token g \<noteq> Some name) \<longrightarrow>
      removeColumn name d = (False, d))"
  by (simp add: removeColumn_def removeColumn_loop_found[where i = 0] removeColumn_loop_absent)

theorem removeColumn_first_match_witness:
  "column_token ''`name` TEXT NOT NULL'' = Some ''name''
   \<and> column_token ''`id` INTEGER'' = Some ''id''
   \<and> removeColumn ''name''
        \<lparr>head = ''CREATE TABLE `users`'',
         fields' = [''`id` INTEGER'', ''`name` TEXT NOT NULL'', ''`age` INT''], columns = []\<rparr>
       = (True, \<lparr>head = ''CREATE TABLE `users`'',
                 fields' = [''`id` INTEGER'', ''`age` INT''], columns = []\<rparr>)
   \<and> removeColumn ''ghost''
        \<lparr>head = ''CREATE TABLE `users`'',
         fields' = [''`id` INTEGER'', ''`name` TEXT NOT NULL''], columns = []\<rparr>
       = (False, \<lparr>head = ''CREATE TABLE `users`'',
                  fields' = [''`id` INTEGER'', ''`name` TEXT NOT NULL''], columns = []\<rparr>)"
  using removeColumn_first_match[of
      "\<lparr>head = ''CREATE TABLE `users`'',
         fields' = [''`id` INTEGER'', ''`name` TEXT NOT NULL'', ''`age` INT''], columns = []\<rparr>"
      "[''`id` INTEGER'']" "''`name` TEXT NOT NULL''" "[''`age` INT'']" "''name''"]
    removeColumn_first_match[of
      "\<lparr>head = ''CREATE TABLE `users`'',
         fields' = [''`id` INTEGER'', ''`name` TEXT NOT NULL''], columns = []\<rparr>"
      "[]" "[]" "[]" "''ghost''"]
  by (simp add: column_token_def Fields_def isSpace_def Trim_def quote_cutset_def)

section \<open>Fields of a single token (C10)\<close>

lemma getColumns_loop_acc: "getColumns_loop fs res = res @ getColumns_loop fs []"
proof (induction fs arbitrary: res)
  case Nil
  show ?case by simp
next
  case (Cons f fs)
  from Cons[of "res @ [''`'' @ Trim (Fields (TrimSpace f) ! 0) quote_cutset @ ''`'']"]
    Cons[of "[''`'' @ Trim (Fields (TrimSpace f) ! 0) quote_cutset @ ''`'']"] Cons[of res]
  show ?case by (simp add: Let_def)
qed

lemma getColumns_loop_append:
  "getColumns_loop (xs @ ys) [] = getColumns_loop xs [] @ getColumns_loop ys []"
proof (induction xs)
  case Nil
  show ?case by simp
next
  case (Cons f fs)
  from Cons getColumns_loop_acc[of "fs @ ys" "[''`'' @ Trim (Fields (TrimSpace f) ! 0) quote_cutset @ ''`'']"]
    getColumns_loop_acc[of fs "[''`'' @ Trim (Fields (TrimSpace f) ! 0) quote_cutset @ ''`'']"]
  show ?case by (simp add: Let_def)
qed

lemma parseColumns_loop_acc: "parseColumns_loop fs cols = cols @ parseColumns_loop fs []"
proof (induction fs arbitrary: cols)
  case Nil
  show ?case by simp
next
  case (Cons f fs)
  show ?case
  proof (cases "parseColumn f")
    case None
    with Cons[of cols] show ?thesis by simp
  next
    case (Some c)
    with Cons[of "cols @ [c]"] Cons[of "[c]"] show ?thesis by simp
  qed
qed

lemma parseColumns_loop_append:
  "parseColumns_loop (xs @ ys) [] = parseColumns_loop xs [] @ parseColumns_loop ys []"
proof (induction xs)
  case Nil
  show ?case by simp
next
  case (Cons f fs)
  show ?case
  proof (cases "parseColumn f")
    case None
    with Cons show ?thesis by simp
  next
    case (Some c)
    with Cons parseColumns_loop_acc[of "fs @ ys" "[c]"] parseColumns_loop_acc[of fs "[c]"]
    show ?thesis by simp
  qed
qed

text \<open>
  Claim C10: a field of exactly one token that \<^verbatim>\<open>getColumns\<close> does not skip is listed
  by \<^verbatim>\<open>getColumns\<close>, its name stripped of quotes and put between backticks, while
  \<^verbatim>\<open>parseColumns\<close> skips it: the columns parsed with the field are those parsed
  without it. On \<^verbatim>\<open>CREATE TABLE `t` (`a`, `b` INT)\<close> \<^verbatim>\<open>getColumns\<close> returns two
  names and there is one column descriptor.
\<close>

theorem single_token_field_named_but_not_described:
  "(Fields (TrimSpace f) = [tok] \<and> \<not> not_a_column (TrimSpace f) \<longrightarrow>
      getColumns (d\<lparr>fields' := pre @ f # post\<rparr>)
        = getColumns (d\<lparr>fields' := pre\<rparr>) @ (''`'' @ Trim tok quote_cutset @ ''`'')
            # getColumns (d\<lparr>fields' := post\<rparr>)
      \<and> parseColumn f = None
      \<and> parseColumns (pre @ f # post) = parseColumns (pre @ post))
   \<and> map_option (map_sum id (\<lambda>d. (getColumns d, map NameValue (columns d))))
         (parseDDL [''CREATE TABLE `t` (`a`, `b` INT)''])
       = Some (Inr ([''`a`'', ''`b`''], [Some ''b'']))"
proof (intro conjI impI)
  assume a: "Fields (TrimSpace f) = [tok] \<and> \<not> not_a_column (TrimSpace f)"
  then have "getColumns_loop [f] [] = [''`'' @ Trim tok quote_cutset @ ''`'']"
    by (simp add: Let_def)
  with getColumns_loop_append[of pre "f # post"] getColumns_loop_append[of "[f]" post]
  show "getColumns (d\<lparr>fields' := pre @ f # post\<rparr>)
        = getColumns (d\<lparr>fields' := pre\<rparr>) @ (''`'' @ Trim tok quote_cutset @ ''`'')
            # getColumns (d\<lparr>fields' := post\<rparr>)"
    by (simp add: getColumns_def)
  from a show n: "parseColumn f = None" by (simp add: parseColumn_def Let_def)
  with parseColumns_loop_append[of pre "f # post"] parseColumns_loop_append[of pre post]
  show "parseColumns (pre @ f # post) = parseColumns (pre @ post)"
    by (simp add: parseColumns_def)
next
  show "map_option (map_sum id (\<lambda>d. (getColumns d, map NameValue (columns d))))
         (parseDDL [''CREATE TABLE `t` (`a`, `b` INT)''])
       = Some (Inr ([''`a`'', ''`b`''], [Some ''b'']))"
    by code_simp
qed

theorem single_token_field_named_but_not_described_witness:
  "Fields (TrimSpace '' `a` '') = [''`a`''] \<and> \<not> not_a_column (TrimSpace '' `a` '')
   \<and> getColumns \<lparr>head = ''CREATE TABLE `t`'', fields' = [''`b` INT'', '' `a` ''], columns = []\<rparr>
       = [''`b`'', ''`a`'']
   \<and> parseColumn '' `a` '' = None
   \<and> parseColumns [''`b` INT'', '' `a` ''] = parseColumns [''`b` INT'']"
  using single_token_field_named_but_not_described[where f = "'' `a` ''" and tok = "''`a`''"
      and d = "\<lparr>head = ''CREATE TABLE `t`'', fields' = [], columns = []\<rparr>"
      and pre = "[''`b` INT'']" and post = "[]"]
  by (simp add: getColumns_def Fields_def TrimSpace_def isSpace_def not_a_column_def HasPrefix_def
      ToUpper_def toUpper_def Contains_def Trim_def quote_cutset_def Let_def)

section \<open>The default value of a column (C5)\<close>

lemma ToUpper_append: "ToUpper (a @ b) = ToUpper a @ ToUpper b"
  by (simp add: ToUpper_def)

lemma Contains_occurs: "Contains (pre @ sub @ post) sub"
  using Index_occurs_le[of pre sub post] by (auto simp: Contains_def)

lemma parse_length_DefaultValueValue:
  "DefaultValueValue (parse_length ty column) = DefaultValueValue column"
  by (simp add: parse_length_def Let_def split: option.split)

lemma parse_default_first_occurrence:
  assumes "first_occurrence ''DEFAULT'' rest pre post"
  shows "DefaultValueValue (parse_default rest column) =
           (if EqualFold (TrimSpace post) ''NULL'' then DefaultValueValue column
            else Some (Trim (TrimSpace post) ''()''))"
proof -
  from assms have r: "rest = pre @ ''DEFAULT'' @ post" by (simp add: first_occurrence_def)
  have "ToUpper rest = ToUpper pre @ ''DEFAULT'' @ ToUpper post"
    unfolding r ToUpper_append by (simp add: ToUpper_def toUpper_def)
  then have c: "Contains (ToUpper rest) ''DEFAULT''" using Contains_occurs by metis
  from Index_first_occurrence[OF assms] r
  have s: "SplitN2 rest ''DEFAULT'' = [pre, post]" by (simp add: SplitN2_def)
  from c s show ?thesis by (simp add: parse_default_def)
qed

text \<open>
  Claim C5 says that the text after \<^verbatim>\<open>DEFAULT\<close> is recorded with one layer of
  surrounding parentheses stripped. The code calls \<^verbatim>\<open>strings.Trim(defaultValue, "()")\<close>,
  which removes every parenthesis character at either end: the default of
  \<^verbatim>\<open>`a` INT DEFAULT ((1))\<close> is recorded as \<^verbatim>\<open>1\<close>, not as \<^verbatim>\<open>(1)\<close>.
\<close>

theorem default_strips_every_parenthesis:
  "map_option DefaultValueValue (parseColumn ''`a` INT DEFAULT ((1))'') = Some (Some ''1'')
   \<and> spec_strip_one_layer ''((1))'' = ''(1)''"
  by code_simp

text \<open>
  C5 as amended: for every column entry whose remainder (the tokens from the third on,
  joined by single spaces) contains \<^verbatim>\<open>DEFAULT\<close> in upper case, the text after the
  first \<^verbatim>\<open>DEFAULT\<close> is trimmed of whitespace; the default value is absent when that
  text is \<^verbatim>\<open>NULL\<close> in any letter case, and is otherwise that text with every leading
  and trailing parenthesis character stripped.
\<close>

theorem default_value_after_DEFAULT:
  "\<not> is_clause (TrimSpace f) \<and> Fields (TrimSpace f) = nm # ty # attrs
     \<and> first_occurrence ''DEFAULT'' (Join attrs '' '') pre post \<longrightarrow>
   (\<exists>col. parseColumn f = Some col
      \<and> DefaultValueValue col =
          (if EqualFold (TrimSpace post) ''NULL'' then None
           else Some (Trim (TrimSpace post) ''()'')))"
proof
  assume a: "\<not> is_clause (TrimSpace f) \<and> Fields (TrimSpace f) = nm # ty # attrs
     \<and> first_occurrence ''DEFAULT'' (Join attrs '' '') pre post"
  then have fo: "first_occurrence ''DEFAULT'' (Join attrs '' '') pre post" by simp
  from a show "\<exists>col. parseColumn f = Some col
      \<and> DefaultValueValue col =
          (if EqualFold (TrimSpace post) ''NULL'' then None
           else Some (Trim (TrimSpace post) ''()''))"
    by (simp add: parseColumn_def Let_def parse_length_DefaultValueValue
        parse_default_first_occurrence[OF fo])
qed

theorem default_value_after_DEFAULT_witness:
  "\<not> is_clause (TrimSpace ''`id` INTEGER NOT NULL DEFAULT 0'')
   \<and> Fields (TrimSpace ''`id` INTEGER NOT NULL DEFAULT 0'') = [''`id`'', ''INTEGER'', ''NOT'', ''NULL'', ''DEFAULT'', ''0'']
   \<and> first_occurrence ''DEFAULT'' (Join [''NOT'', ''NULL'', ''DEFAULT'', ''0''] '' '') ''NOT NULL '' '' 0''
   \<and> map_option DefaultValueValue (parseColumn ''`id` INTEGER NOT NULL DEFAULT 0'') = Some (Some ''0'')"
proof -
  have c: "\<not> is_clause (TrimSpace ''`id` INTEGER NOT NULL DEFAULT 0'')"
    by code_simp
  have f: "Fields (TrimSpace ''`id` INTEGER NOT NULL DEFAULT 0'') = [''`id`'', ''INTEGER'', ''NOT'', ''NULL'', ''DEFAULT'', ''0'']"
    by code_simp
  have "Index (Join [''NOT'', ''NULL'', ''DEFAULT'', ''0''] '' '') ''DEFAULT'' = Some 9"
    by code_simp
  from first_occurrence_Index[OF this]
  have o: "first_occurrence ''DEFAULT'' (Join [''NOT'', ''NULL'', ''DEFAULT'', ''0''] '' '') ''NOT NULL '' '' 0''"
    by simp
  have e: "\<not> EqualFold (TrimSpace '' 0'') ''NULL''" "Trim (TrimSpace '' 0'') ''()'' = ''0''"
    by code_simp+
  from c f o e
    default_value_after_DEFAULT[of "''`id` INTEGER NOT NULL DEFAULT 0''" "''`id`''" "''INTEGER''"
      "[''NOT'', ''NULL'', ''DEFAULT'', ''0'']" "''NOT NULL ''" "'' 0''"]
  have "map_option DefaultValueValue (parseColumn ''`id` INTEGER NOT NULL DEFAULT 0'') = Some (Some ''0'')"
    by auto
  with c f o show ?thesis by blast
qed

section \<open>The length and the base type of a column (C6)\<close>

lemma Split_from_eq:
  "Split_from cur s sep =
     (cur @ takeWhile (\<lambda>c. c \<noteq> sep) s)
       # (case dropWhile (\<lambda>c. c \<noteq> sep) s of [] \<Rightarrow> [] | c # r \<Rightarrow> Split_from [] r sep)"
  by (induction s arbitrary: cur) auto

lemma Split_first:
  assumes "sep \<notin> set base"
  shows "Split (base @ sep # tail) sep = base # takeWhile (\<lambda>c. c \<noteq> sep) tail
           # (case dropWhile (\<lambda>c. c \<noteq> sep) tail of [] \<Rightarrow> [] | c # r \<Rightarrow> Split_from [] r sep)"
proof -
  from assms have t: "takeWhile (\<lambda>c. c \<noteq> sep) (base @ sep # tail) = base"
    by (induction base) auto
  from assms have d: "dropWhile (\<lambda>c. c \<noteq> sep) (base @ sep # tail) = sep # tail"
    by (induction base) auto
  show ?thesis
    unfolding Split_def
    by (subst Split_from_eq, simp only: t d, subst Split_from_eq) simp
qed

lemma Contains_char: "c \<in> set s \<Longrightarrow> Contains s [c]"
  using Contains_occurs[of _ "[c]"] by (auto simp: in_set_conv_decomp)

lemma parse_length_split:
  assumes "CHR ''('' \<notin> set base"
  shows "parse_length (base @ CHR ''('' # tail) column =
     (case Atoi (TrimRight (takeWhile (\<lambda>c. c \<noteq> CHR ''('') tail) '')'') of
        Some n \<Rightarrow> column\<lparr>LengthValue := Some n, DataTypeValue := Some base\<rparr>
      | None \<Rightarrow> column)"
proof -
  have "Contains (base @ CHR ''('' # tail) ''(''" by (rule Contains_char) simp
  with Split_first[OF assms, of tail] show ?thesis
    by (simp add: parse_length_def Let_def split: option.split)
qed

lemma parse_default_other_fields:
  "DataTypeValue (parse_default rest column) = DataTypeValue column"
  "LengthValue (parse_default rest column) = LengthValue column"
  "ColumnTypeValue (parse_default rest column) = ColumnTypeValue column"
  by (simp_all add: parse_default_def Let_def)

text \<open>
  Claim C6 says that the recorded data type of a column whose type string contains an
  opening parenthesis always is the text before it. The code assigns the base type only
  where the length parses as an integer: the data type of \<^verbatim>\<open>`price` DECIMAL(10,2)\<close>
  stays \<^verbatim>\<open>DECIMAL(10,2)\<close>, with no length.
\<close>

theorem data_type_not_stripped:
  "map_option (\<lambda>col. (DataTypeValue col, LengthValue col)) (parseColumn ''`price` DECIMAL(10,2)'')
     = Some (Some ''DECIMAL(10,2)'', None)"
  by code_simp

text \<open>
  C6 as amended: for every column entry whose declared type string contains an opening
  parenthesis, the text between the first opening parenthesis and the next one (or the
  end of the type string), stripped of the closing parentheses at its end, is read as an
  integer. When it is one, it becomes the length and the text before the first opening
  parenthesis becomes the recorded data type; when it is not, the length is absent and
  the recorded data type is the type string as written. The column type is the type
  string as written in both cases.
\<close>

theorem length_and_base_type:
  "\<not> is_clause (TrimSpace f) \<and> Fields (TrimSpace f) = nm # ty # attrs
     \<and> ty = base @ CHR ''('' # tail \<and> CHR ''('' \<notin> set base \<longrightarrow>
   (\<exists>col. parseColumn f = Some col \<and> ColumnTypeValue col = Some ty
      \<and> (case Atoi (TrimRight (takeWhile (\<lambda>c. c \<noteq> CHR ''('') tail) '')'') of
            Some n \<Rightarrow> LengthValue col = Some n \<and> DataTypeValue col = Some base
          | None \<Rightarrow> LengthValue col = None \<and> DataTypeValue col = Some ty))"
proof
  assume a: "\<not> is_clause (TrimSpace f) \<and> Fields (TrimSpace f) = nm # ty # attrs
     \<and> ty = base @ CHR ''('' # tail \<and> CHR ''('' \<notin> set base"
  then have b: "CHR ''('' \<notin> set base" by simp
  from a show "\<exists>col. parseColumn f = Some col \<and> ColumnTypeValue col = Some ty
      \<and> (case Atoi (TrimRight (takeWhile (\<lambda>c. c \<noteq> CHR ''('') tail) '')'') of
            Some n \<Rightarrow> LengthValue col = Some n \<and> DataTypeValue col = Some base
          | None \<Rightarrow> LengthValue col = None \<and> DataTypeValue col = Some ty)"
    by (simp add: parseColumn_def Let_def parse_length_split[OF b] parse_default_other_fields
        split: option.split)
qed

theorem length_and_base_type_witness:
  "\<not> is_clause (TrimSpace ''`name` VARCHAR(255)'')
   \<and> Fields (TrimSpace ''`name` VARCHAR(255)'') = [''`name`'', ''VARCHAR(255)'']
   \<and> Atoi (TrimRight (takeWhile (\<lambda>c. c \<noteq> CHR ''('') ''255)'') '')'') = Some 255
   \<and> map_option (\<lambda>col. (DataTypeValue col, LengthValue col, ColumnTypeValue col))
        (parseColumn ''`name` VARCHAR(255)'') = Some (Some ''VARCHAR'', Some 255, Some ''VARCHAR(255)'')
   \<and> \<not> is_clause (TrimSpace ''`price` DECIMAL(10,2)'')
   \<and> Fields (TrimSpace ''`price` DECIMAL(10,2)'') = [''`price`'', ''DECIMAL(10,2)'']
   \<and> Atoi (TrimRight (takeWhile (\<lambda>c. c \<noteq> CHR ''('') ''10,2)'') '')'') = None
   \<and> map_option (\<lambda>col. (DataTypeValue col, LengthValue col, ColumnTypeValue col))
        (parseColumn ''`price` DECIMAL(10,2)'') = Some (Some ''DECIMAL(10,2)'', None, Some ''DECIMAL(10,2)'')"
proof -
  have c1: "\<not> is_clause (TrimSpace ''`name` VARCHAR(255)'')"
    and f1: "Fields (TrimSpace ''`name` VARCHAR(255)'') = [''`name`'', ''VARCHAR(255)'']"
    and a1: "Atoi (TrimRight (takeWhile (\<lambda>c. c \<noteq> CHR ''('') ''255)'') '')'') = Some 255"
    and c2: "\<not> is_clause (TrimSpace ''`price` DECIMAL(10,2)'')"
    and f2: "Fields (TrimSpace ''`price` DECIMAL(10,2)'') = [''`price`'', ''DECIMAL(10,2)'']"
    and a2: "Atoi (TrimRight (takeWhile (\<lambda>c. c \<noteq> CHR ''('') ''10,2)'') '')'') = None"
    by code_simp+
  from c1 f1 a1
    length_and_base_type[of "''`name` VARCHAR(255)''" "''`name`''" "''VARCHAR(255)''" "[]" "''VARCHAR''" "''255)''"]
  have r1: "map_option (\<lambda>col. (DataTypeValue col, LengthValue col, ColumnTypeValue col))
        (parseColumn ''`name` VARCHAR(255)'') = Some (Some ''VARCHAR'', Some 255, Some ''VARCHAR(255)'')"
    by auto
  from c2 f2 a2
    length_and_base_type[of "''`price` DECIMAL(10,2)''" "''`price`''" "''DECIMAL(10,2)''" "[]" "''DECIMAL''" "''10,2)''"]
  have r2: "map_option (\<lambda>col. (DataTypeValue col, LengthValue col, ColumnTypeValue col))
        (parseColumn ''`price` DECIMAL(10,2)'') = Some (Some ''DECIMAL(10,2)'', None, Some ''DECIMAL(10,2)'')"
    by auto
  from c1 f1 a1 r1 c2 f2 a2 r2 show ?thesis by blast
qed

section \<open>The round trip (C1)\<close>

lemma utf8_ascii: "ascii s \<Longrightarrow> utf8 s = s"
  by (induction s) (auto simp: utf8_def ascii_def WriteRune_def)

lemma scan_fields_entry:
  "top_level_entry d e \<Longrightarrow> 1 \<le> d \<Longrightarrow>
     scan_fields (e @ r) d cur fs = scan_fields r 1 (cur @ e) fs"
proof (induction e arbitrary: d cur)
  case Nil
  then show ?case by simp
next
  case (Cons c e)
  from Cons(2) have c: "c \<noteq> eof" "WriteRune c = [c]" "\<not> (c = CHR '','' \<and> d = 1)" "\<not> (c = CHR '')'' \<and> d = 1)"
    and t: "top_level_entry (nest d c) e"
    by (simp_all add: WriteRune_def)
  from c Cons(3) have n: "1 \<le> nest d c" by (auto simp: nest_def)
  from Cons(1)[OF t n] c Cons(3) show ?case by (auto simp: nest_def)
qed

lemma scan_fields_entries:
  "es \<noteq> [] \<Longrightarrow> \<forall>e\<in>set es. top_level_entry 1 e \<Longrightarrow> last es \<noteq> [] \<Longrightarrow>
     scan_fields (Join es '','' @ CHR '')'' # tail) 1 [] fs = Inr (fs @ map TrimSpace es)"
proof (induction es "'',''" arbitrary: fs rule: Join.induct)
  case 1
  then show ?case by simp
next
  case (2 e)
  then show ?case using scan_fields_entry[of 1 e "CHR '')'' # tail" "[]" fs] by simp
next
  case (3 e e' es)
  from 3(3) have "top_level_entry 1 e" by simp
  from scan_fields_entry[OF this, of "CHR '','' # Join (e' # es) '','' @ CHR '')'' # tail" "[]" fs]
  have "scan_fields (Join (e # e' # es) '','' @ CHR '')'' # tail) 1 [] fs
          = scan_fields (Join (e' # es) '','' @ CHR '')'' # tail) 1 [] (fs @ [TrimSpace e])"
    by simp
  also from 3 have "\<dots> = Inr ((fs @ [TrimSpace e]) @ map TrimSpace (e' # es))"
    by (intro 3(1)) simp_all
  finally show ?case by simp
qed

lemma parseTableName_found:
  assumes "remaining p = pre @ q # name @ q # post" "isQuote q" "\<forall>c\<in>set pre. \<not> isQuote c"
    "q \<notin> set name" "eof \<notin> set name"
  shows "parseTableName p = Some (Inr (utf8 name, advance (length pre + length name + 2) p))"
proof -
  from assms(2) have q: "q \<noteq> eof" by (auto simp: isQuote_def)
  from parseTableName_skip_found[OF assms(1-3)]
  have s: "parseTableName_skip p = Some (advance (length pre) p)" .
  from remaining_advance[OF assms(1)]
  have "remaining (advance (length pre) p) = q # name @ q # post" .
  from parseString_found[OF this assms(4,5) q] s show ?thesis
    by (simp add: parseTableName_def advance_advance add.assoc)
qed

lemma parseDDL_create_table:
  assumes up: "HasPrefix (ToUpper s) ''CREATE TABLE''"
    and s: "s = pre @ q # name @ q # mid @ CHR ''('' # Join es '','' @ CHR '')'' # tail"
    and q: "isQuote q" "\<forall>c\<in>set pre. \<not> isQuote c" "q \<notin> set name" "eof \<notin> set name" "ascii name"
    and mid: "CHR ''('' \<notin> set mid"
    and es: "es \<noteq> []" "\<forall>e\<in>set es. top_level_entry 1 e" "last es \<noteq> []"
  shows "parseDDL [s] = Some (Inr \<lparr>head = ''CREATE TABLE '' @ backquoted name,
            fields' = map TrimSpace es, columns = parseColumns_loop (map TrimSpace es) []\<rparr>)"
proof -
  let ?p = "newParser s"
  let ?p1 = "advance (length pre + length name + 2) ?p"
  have r: "remaining ?p = pre @ q # name @ q # (mid @ CHR ''('' # Join es '','' @ CHR '')'' # tail)"
    by (simp add: remaining_def newParser_def newLexer_def s)
  from parseTableName_found[OF r q(1-4)] utf8_ascii[OF q(5)]
  have n: "parseTableName ?p = Some (Inr (name, ?p1))" by simp
  from r have "remaining ?p = (pre @ q # name @ [q]) @ (mid @ CHR ''('' # Join es '','' @ CHR '')'' # tail)"
    by simp
  from remaining_advance[OF this]
  have "remaining ?p1 = mid @ CHR ''('' # (Join es '','' @ CHR '')'' # tail)" by (simp add: add.assoc)
  from parseTableFields_eq[OF this mid] scan_fields_entries[OF es]
  have f: "parseTableFields ?p1 = Some (Inr (map TrimSpace es))" by simp
  from up n f show ?thesis
    by (simp add: parseDDL_def parseColumns_def backquoted_def)
qed

text \<open>
  Claim C1 says that for every syntactically valid \<^verbatim>\<open>CREATE TABLE\<close> statement
  \<^verbatim>\<open>compile\<close> of the parsed model has the table name and the fields of the statement,
  in their order. \<^verbatim>\<open>parseTableFields\<close> counts every parenthesis and splits at every
  comma it reads while the counter is 1, inside a string literal as well: on
  \<^verbatim>\<open>CREATE TABLE `t` (`a` TEXT DEFAULT ')', `b` INT)\<close> the body ends at the parenthesis
  inside the literal, the only field is \<^verbatim>\<open>`a` TEXT DEFAULT '\<close> and the column \<^verbatim>\<open>`b`\<close>
  is lost.
\<close>

theorem parenthesis_in_string_literal_breaks_round_trip:
  "map_option (map_sum id (\<lambda>d. (fields' d, compile d, getColumns d)))
     (parseDDL [''CREATE TABLE `t` (`a` TEXT DEFAULT '' @ [CHR 0x27] @ '')'' @ [CHR 0x27] @ '', `b` INT)''])
   = Some (Inr ([''`a` TEXT DEFAULT '' @ [CHR 0x27]],
                ''CREATE TABLE `t` (`a` TEXT DEFAULT '' @ [CHR 0x27] @ '')'',
                [''`a`'']))"
  by code_simp

text \<open>
  C1 as amended: let a statement start with \<^verbatim>\<open>CREATE TABLE\<close> in any letter case and
  consist of a text without quote characters, the table name between two equal quote
  characters (backtick, double quote or single quote; the name is ASCII without NUL and
  without that quote character), a text without an opening parenthesis, the opening
  parenthesis, the entries separated by commas, the closing parenthesis and any text
  after it. If every entry is ASCII without NUL, has balanced parentheses and has no
  comma outside them, and the last entry is not empty, then \<^verbatim>\<open>parseDDL\<close> succeeds, the
  header is \<^verbatim>\<open>CREATE TABLE\<close> and the name between backticks, the fields are the
  entries trimmed of surrounding whitespace, in their order, and \<^verbatim>\<open>compile\<close> is the
  header, a space, and the fields joined by commas between parentheses.
\<close>

theorem compile_parseDDL_round_trip:
  "HasPrefix (ToUpper s) ''CREATE TABLE''
     \<and> s = pre @ q # name @ q # mid @ CHR ''('' # Join es '','' @ CHR '')'' # tail
     \<and> isQuote q \<and> (\<forall>c\<in>set pre. \<not> isQuote c) \<and> q \<notin> set name \<and> eof \<notin> set name \<and> ascii name
     \<and> CHR ''('' \<notin> set mid
     \<and> es \<noteq> [] \<and> (\<forall>e\<in>set es. top_level_entry 1 e) \<and> last es \<noteq> [] \<longrightarrow>
   (\<exists>d. parseDDL [s] = Some (Inr d)
      \<and> head d = ''CREATE TABLE '' @ backquoted name
      \<and> fields' d = map TrimSpace es
      \<and> compile d = ''CREATE TABLE '' @ backquoted name @ '' ('' @ Join (map TrimSpace es) '','' @ '')'')"
proof
  assume a: "HasPrefix (ToUpper s) ''CREATE TABLE''
     \<and> s = pre @ q # name @ q # mid @ CHR ''('' # Join es '','' @ CHR '')'' # tail
     \<and> isQuote q \<and> (\<forall>c\<in>set pre. \<not> isQuote c) \<and> q \<notin> set name \<and> eof \<notin> set name \<and> ascii name
     \<and> CHR ''('' \<notin> set mid
     \<and> es \<noteq> [] \<and> (\<forall>e\<in>set es. top_level_entry 1 e) \<and> last es \<noteq> []"
  then have up: "HasPrefix (ToUpper s) ''CREATE TABLE''"
    and s: "s = pre @ q # name @ q # mid @ CHR ''('' # Join es '','' @ CHR '')'' # tail"
    and q: "isQuote q" "\<forall>c\<in>set pre. \<not> isQuote c" "q \<notin> set name" "eof \<notin> set name" "ascii name"
    and mid: "CHR ''('' \<notin> set mid"
    and es: "es \<noteq> []" "\<forall>e\<in>set es. top_level_entry 1 e" "last es \<noteq> []"
    by blast+
  have "parseDDL [s] = Some (Inr \<lparr>head = ''CREATE TABLE '' @ backquoted name,
            fields' = map TrimSpace es, columns = parseColumns_loop (map TrimSpace es) []\<rparr>)"
    by (rule parseDDL_create_table[OF up s q mid es])
  moreover from es(1) have "compile \<lparr>head = ''CREATE TABLE '' @ backquoted name,
            fields' = map TrimSpace es, columns = parseColumns_loop (map TrimSpace es) []\<rparr>
        = ''CREATE TABLE '' @ backquoted name @ '' ('' @ Join (map TrimSpace es) '','' @ '')''"
    by (simp add: compile_def)
  ultimately show "\<exists>d. parseDDL [s] = Some (Inr d)
      \<and> head d = ''CREATE TABLE '' @ backquoted name
      \<and> fields' d = map TrimSpace es
      \<and> compile d = ''CREATE TABLE '' @ backquoted name @ '' ('' @ Join (map TrimSpace es) '','' @ '')''"
    by simp
qed

theorem compile_parseDDL_round_trip_witness:
  "HasPrefix (ToUpper (''CREATE TABLE `t` (`a` DECIMAL(10,2), `b` TEXT CHECK (`b` <> '' @ [CHR 0x27, CHR 0x27] @ ''))''))
      ''CREATE TABLE''
   \<and> ''CREATE TABLE `t` (`a` DECIMAL(10,2), `b` TEXT CHECK (`b` <> '' @ [CHR 0x27, CHR 0x27] @ ''))''
       = ''CREATE TABLE '' @ CHR ''`'' # ''t'' @ CHR ''`'' # '' '' @ CHR ''(''
           # Join [''`a` DECIMAL(10,2)'', '' `b` TEXT CHECK (`b` <> '' @ [CHR 0x27, CHR 0x27] @ '')''] '',''
           @ CHR '')'' # []
   \<and> isQuote (CHR ''`'') \<and> list_all (\<lambda>c. \<not> isQuote c) ''CREATE TABLE ''
   \<and> top_level_entry 1 ''`a` DECIMAL(10,2)''
   \<and> top_level_entry 1 ('' `b` TEXT CHECK (`b` <> '' @ [CHR 0x27, CHR 0x27] @ '')'')
   \<and> map_option (map_sum id (\<lambda>d. (head d, fields' d, compile d)))
        (parseDDL [''CREATE TABLE `t` (`a` DECIMAL(10,2), `b` TEXT CHECK (`b` <> '' @ [CHR 0x27, CHR 0x27] @ ''))''])
       = Some (Inr (''CREATE TABLE `t`'',
                    [''`a` DECIMAL(10,2)'', ''`b` TEXT CHECK (`b` <> '' @ [CHR 0x27, CHR 0x27] @ '')''],
                    ''CREATE TABLE `t` (`a` DECIMAL(10,2),`b` TEXT CHECK (`b` <> '' @ [CHR 0x27, CHR 0x27] @ ''))''))"
proof -
  let ?s = "''CREATE TABLE `t` (`a` DECIMAL(10,2), `b` TEXT CHECK (`b` <> '' @ [CHR 0x27, CHR 0x27] @ ''))''"
  let ?es = "[''`a` DECIMAL(10,2)'', '' `b` TEXT CHECK (`b` <> '' @ [CHR 0x27, CHR 0x27] @ '')'']"
  have h1: "HasPrefix (ToUpper ?s) ''CREATE TABLE''" by code_simp
  have h2: "?s = ''CREATE TABLE '' @ CHR ''`'' # ''t'' @ CHR ''`'' # '' '' @ CHR ''('' # Join ?es '','' @ CHR '')'' # []"
    by simp
  have h3: "isQuote (CHR ''`'')" "list_all (\<lambda>c. \<not> isQuote c) ''CREATE TABLE ''"
    "CHR ''`'' \<notin> set ''t''" "eof \<notin> set ''t''" "ascii ''t''" "CHR ''('' \<notin> set '' ''"
    by (simp_all add: isQuote_def ascii_def)
  have h4: "top_level_entry 1 ''`a` DECIMAL(10,2)''"
    "top_level_entry 1 ('' `b` TEXT CHECK (`b` <> '' @ [CHR 0x27, CHR 0x27] @ '')'')"
    by (simp_all add: nest_def)
  from h3(2) have h5: "\<forall>c\<in>set ''CREATE TABLE ''. \<not> isQuote c" by (simp only: list_all_iff)
  from h4 have h6: "\<forall>e\<in>set ?es. top_level_entry 1 e" by simp
  from h1 h2 h3 h5 h6
    compile_parseDDL_round_trip[of ?s "''CREATE TABLE ''" "CHR ''`''" "''t''" "'' ''" ?es "[]"]
  obtain d where d: "parseDDL [?s] = Some (Inr d)" "head d = ''CREATE TABLE '' @ backquoted ''t''"
    "fields' d = map TrimSpace ?es"
    "compile d = ''CREATE TABLE '' @ backquoted ''t'' @ '' ('' @ Join (map TrimSpace ?es) '','' @ '')''"
    by auto
  have t: "map TrimSpace ?es = [''`a` DECIMAL(10,2)'', ''`b` TEXT CHECK (`b` <> '' @ [CHR 0x27, CHR 0x27] @ '')'']"
    by (simp add: TrimSpace_def isSpace_def)
  from d t have "map_option (map_sum id (\<lambda>d. (head d, fields' d, compile d))) (parseDDL [?s])
       = Some (Inr (''CREATE TABLE `t`'',
                    [''`a` DECIMAL(10,2)'', ''`b` TEXT CHECK (`b` <> '' @ [CHR 0x27, CHR 0x27] @ '')''],
                    ''CREATE TABLE `t` (`a` DECIMAL(10,2),`b` TEXT CHECK (`b` <> '' @ [CHR 0x27, CHR 0x27] @ ''))''))"
    by (simp add: backquoted_def)
  with h1 h2 h3(1,2) h4 show ?thesis by blast
qed

end
